theory Spec2Isabelle
  imports Complex_Main "HOL-Library.Word" "HOL-Library.Log_Nat"
begin

section \<open>Data model of the light synchroniser (package synctrl)\<close>

text \<open>
  The synchroniser of go-hpb brings the local chain up to a remote peer's head. The
  theory embeds the sequential decision logic of its functions; the chain store, the
  peers' replies and the scheduler are collaborators whose answers are arguments of
  the functions below.
\<close>

datatype SyncMode = FullSync | FastSync | LightSync

text \<open>
  The error values of the package. \<open>errOther\<close> stands for any error value that is
  not one of the package's own (an error of the chain store, of the state sync or of a
  test's mock).
\<close>

datatype error =
    errBusy | errUnknownPeer | errBadPeer | errStallingPeer | errNoPeers | errTimeout
  | errEmptyHeaderSet | errPeersUnavailable | errProVLowerBase | errInvalidAncestor
  | errInvalidChain | errCancelBlockFetch | errCancelHeaderFetch | errCancelBodyFetch
  | errCancelReceiptFetch | errCancelStateFetch | errCancelHeaderProcessing
  | errCancelContentProcessing | errNoSyncActive | errStaleDelivery | errOther nat

type_synonym hash = "256 word"

text \<open>
  A block header, as far as the synchroniser reads it: \<open>Number\<close> is a big integer,
  read through \<open>Number.Uint64()\<close> and \<open>Number.Int64()\<close> (its low 64 bits), and
  \<open>Hash\<close> is the value of \<open>Hash()\<close>.
\<close>

record header =
  Number :: nat
  Hash :: hash

definition Uint64 :: "nat \<Rightarrow> 64 word" where
  "Uint64 n = word_of_nat n"

definition Int64 :: "nat \<Rightarrow> int" where
  "Int64 n = sint (word_of_nat n :: 64 word)"

record peerConnection =
  idP :: string
  version :: nat

text \<open>
  The synchroniser acts on its surroundings through callbacks: \<open>dropPeer\<close>, given at
  construction, and \<open>setIdle\<close>, one of the callbacks that instrument \<open>fetchParts\<close>.
  The model records each invocation with its arguments.
\<close>

datatype callback = DropPeer string | SetIdle peerConnection int

text \<open>
  The fields of \<open>lightSync\<close> that the modelled functions read or write.
  \<open>synchroniseMock\<close> is the testing replacement of \<open>syn\<close>; \<open>peers\<close> is the peer set
  (\<open>peers.Peer(id)\<close> is \<open>peers this id\<close>); \<open>calls\<close> holds, in order, the callback
  invocations made so far.
\<close>

record lightSync =
  mode :: SyncMode
  fsPivotLock :: "header option"
  fsPivotFails :: "32 word"
  rttEstimate :: "64 word"
  rttConfidence :: "64 word"
  syncStatsChainOrigin :: "64 word"
  syncStatsChainHeight :: "64 word"
  synchroniseMock :: "(string \<Rightarrow> hash \<Rightarrow> error option) option"
  synchronising :: "32 word"
  notified :: "32 word"
  cancelPeer :: string
  peers :: "string \<rightharpoonup> peerConnection"
  calls :: "callback list"

subsection \<open>Tunable constants\<close>

text \<open>Modelled from the spec: the constants below are declared outside the given
  sources; the values are those of the spec's list of tunable constants
  (\<open>fs_critical_trials=10\<close>, \<open>fs_min_full_blocks=64\<close>, \<open>fs_pivot_interval=64\<close>,
  \<open>rtt_max_estimate=20 s\<close>, a duration in nanoseconds).\<close>

definition fsCriticalTrials :: "32 word" where
  "fsCriticalTrials = 10"

definition fsMinFullBlocks :: "64 word" where
  "fsMinFullBlocks = 64"

definition fsPivotInterval :: nat where
  "fsPivotInterval = 64"

definition rttMaxEstimate :: "64 word" where
  "rttMaxEstimate = 20000000000"

text \<open>Modelled from the spec: \<open>MaxHeaderFetch=192\<close> and \<open>MaxForkAncestry\<close> (about 90 000),
  declared outside the given sources.\<close>

definition MaxHeaderFetch :: nat where
  "MaxHeaderFetch = 192"

definition MaxForkAncestry :: "64 word" where
  "MaxForkAncestry = 90000"

text \<open>Modelled from the spec: the constants of header processing, declared outside the
  given sources (\<open>max_headers_process=2048\<close>, \<open>fs_header_check_frequency=100\<close>,
  \<open>fs_header_safety_net=2048\<close>, \<open>fs_header_force_verify=24\<close>).\<close>

definition maxHeadersProcess :: nat where
  "maxHeadersProcess = 2048"

definition fsHeaderCheckFrequency :: int where
  "fsHeaderCheckFrequency = 100"

definition fsHeaderSafetyNet :: nat where
  "fsHeaderSafetyNet = 2048"

definition fsHeaderForceVerify :: "64 word" where
  "fsHeaderForceVerify = 24"

section \<open>Construction\<close>

text \<open>\<open>newLightsync\<close>: no session, no peers, the RTT estimate at its maximum and full
  confidence.\<close>

definition newLightsync :: lightSync where
  "newLightsync =
     \<lparr>mode = FullSync, fsPivotLock = None, fsPivotFails = 0, rttEstimate = rttMaxEstimate,
      rttConfidence = 1000000, syncStatsChainOrigin = 0, syncStatsChainHeight = 0,
      synchroniseMock = None, synchronising = 0, notified = 0, cancelPeer = [],
      peers = Map.empty, calls = []\<rparr>"

section \<open>Starting a synchronisation: \<open>start\<close> and \<open>syn\<close>\<close>

text \<open>
  \<open>syn\<close> up to the call of \<open>syncWithPeer\<close>: the session is marked as running, the
  master peer is recorded and the requested mode is set "unless it's forbidden".
  (Resetting the scheduler, the peers' statistics and the channels touches no field
  of the record.)
\<close>

definition syn_session :: "lightSync \<Rightarrow> string \<Rightarrow> SyncMode \<Rightarrow> lightSync" where
  "syn_session this id0 mode0 =
     (let this1 = this\<lparr>synchronising := 1\<rparr>;
          this2 = (if notified this1 = 0 then this1\<lparr>notified := 1\<rparr> else this1);
          this3 = this2\<lparr>cancelPeer := id0\<rparr>;
          this4 = this3\<lparr>mode := mode0\<rparr>
      in if mode this4 = FastSync \<and> fsPivotFails this4 \<ge> fsCriticalTrials
         then this4\<lparr>mode := FullSync\<rparr> else this4)"

text \<open>
  \<open>syn\<close>. The first argument is \<open>syncWithPeer\<close>, which talks to the network; the
  deferred store of 0 to \<open>synchronising\<close> runs on every return after the
  compare-and-swap.
\<close>

definition syn ::
  "(lightSync \<Rightarrow> peerConnection \<Rightarrow> hash \<Rightarrow> int \<Rightarrow> error option \<times> lightSync) \<Rightarrow>
   lightSync \<Rightarrow> string \<Rightarrow> hash \<Rightarrow> int \<Rightarrow> SyncMode \<Rightarrow> error option \<times> lightSync" where
  "syn syncWithPeer this id0 hash0 td mode0 =
     (case synchroniseMock this of
        Some mock \<Rightarrow> (mock id0 hash0, this)
      | None \<Rightarrow>
          if synchronising this \<noteq> 0 then (Some errBusy, this)
          else
            let this' = syn_session this id0 mode0
            in case peers this' id0 of
                 None \<Rightarrow> (Some errUnknownPeer, this'\<lparr>synchronising := 0\<rparr>)
               | Some p \<Rightarrow>
                   (let (err, this'') = syncWithPeer this' p hash0 td
                    in (err, this''\<lparr>synchronising := 0\<rparr>)))"

text \<open>\<open>start\<close>: run \<open>syn\<close> and report the peer to \<open>dropPeer\<close> on the listed errors.\<close>

definition start ::
  "(lightSync \<Rightarrow> peerConnection \<Rightarrow> hash \<Rightarrow> int \<Rightarrow> error option \<times> lightSync) \<Rightarrow>
   lightSync \<Rightarrow> string \<Rightarrow> hash \<Rightarrow> int \<Rightarrow> SyncMode \<Rightarrow> error option \<times> lightSync" where
  "start syncWithPeer this id0 head td mode0 =
     (let (err, this') = syn syncWithPeer this id0 head td mode0
      in case err of
           None \<Rightarrow> (err, this')
         | Some e \<Rightarrow>
             if e = errBusy then (err, this')
             else if e = errTimeout \<or> e = errBadPeer \<or> e = errStallingPeer
                     \<or> e = errEmptyHeaderSet \<or> e = errPeersUnavailable \<or> e = errProVLowerBase
                     \<or> e = errInvalidAncestor \<or> e = errInvalidChain
             then (err, this'\<lparr>calls := calls this' @ [DropPeer id0]\<rparr>)
             else (err, this'))"

section \<open>Synchronising with a peer: \<open>syncWithPeer\<close>\<close>

text \<open>
  The pivot selection and origin adjustment of \<open>syncWithPeer\<close> (the \<open>switch\<close> on the
  mode before \<open>sch.Prepare\<close>). \<open>pivotOffset\<close> is the number drawn from the random
  source, below \<open>fsPivotInterval\<close>; the result is the pivot and the adjusted origin.
  All arithmetic is on \<open>uint64\<close>.
\<close>

definition selectPivot ::
  "SyncMode \<Rightarrow> header option \<Rightarrow> nat \<Rightarrow> 64 word \<Rightarrow> 64 word \<Rightarrow> 64 word \<times> 64 word" where
  "selectPivot mode0 lock pivotOffset height origin =
     (case mode0 of
        LightSync \<Rightarrow> (height, origin)
      | FastSync \<Rightarrow>
          (let pivot = (case lock of
                          None \<Rightarrow> if height > fsMinFullBlocks + Uint64 pivotOffset
                                  then height - fsMinFullBlocks - Uint64 pivotOffset else 0
                        | Some l \<Rightarrow> Uint64 (Number l));
               origin' = (if pivot < origin then (if pivot > 0 then pivot - 1 else 0) else origin)
           in (pivot, origin'))
      | FullSync \<Rightarrow> (0, origin))"

text \<open>
  \<open>syncWithPeer\<close>. Its arguments are the protocol version \<open>ProtocolV111\<close> (declared
  outside the given sources), the outcomes of \<open>fetchHeight\<close> and \<open>findAncestor\<close> (replies
  of the peer), the random pivot offset, and \<open>spawnSync\<close>, which runs the fetchers on
  \<open>origin + 1\<close>, the pivot and the peer's head header and may lock the pivot.
\<close>

definition syncWithPeer ::
  "nat \<Rightarrow> (lightSync \<Rightarrow> peerConnection \<Rightarrow> error + header) \<Rightarrow>
   (lightSync \<Rightarrow> peerConnection \<Rightarrow> 64 word \<Rightarrow> error + 64 word) \<Rightarrow> nat \<Rightarrow>
   (lightSync \<Rightarrow> peerConnection \<Rightarrow> 64 word \<Rightarrow> 64 word \<Rightarrow> header \<Rightarrow> int \<Rightarrow> error option \<times> lightSync) \<Rightarrow>
   lightSync \<Rightarrow> peerConnection \<Rightarrow> hash \<Rightarrow> int \<Rightarrow> error option \<times> lightSync" where
  "syncWithPeer ProtocolV111 fetchHeight findAncestor pivotOffset spawnSync this p hash0 td =
     (if version p < ProtocolV111 then (Some errProVLowerBase, this)
      else case fetchHeight this p of
        Inl e \<Rightarrow> (Some e, this)
      | Inr latest \<Rightarrow>
          (let height = Uint64 (Number latest)
           in case findAncestor this p height of
                Inl e \<Rightarrow> (Some e, this)
              | Inr origin \<Rightarrow>
                  (let this1 = (if syncStatsChainHeight this \<le> origin \<or> syncStatsChainOrigin this > origin
                                then this\<lparr>syncStatsChainOrigin := origin\<rparr> else this);
                       this2 = this1\<lparr>syncStatsChainHeight := height\<rparr>;
                       (pivot, origin') = selectPivot (mode this2) (fsPivotLock this2) pivotOffset height origin;
                       (err, this3) = spawnSync this2 p (origin' + 1) pivot latest td
                   in if err \<noteq> None \<and> mode this3 = FastSync \<and> fsPivotLock this3 \<noteq> None
                      then (err, this3\<lparr>fsPivotFails := fsPivotFails this3 + 1\<rparr>)
                      else (err, this3))))"

section \<open>The ancestor search: \<open>findAncestor\<close>\<close>


text \<open>Go's integer division on \<open>int64\<close>, which truncates towards zero.\<close>

definition quo :: "int \<Rightarrow> int \<Rightarrow> int" where
  "quo a b = sgn a * sgn b * (\<bar>a\<bar> div \<bar>b\<bar>)"

text \<open>The block numbers of the local chain's heads: \<open>lightchain.CurrentHeader()\<close>,
  \<open>CurrentBlock()\<close> and \<open>CurrentFastBlock()\<close>.\<close>

record chainHeads =
  CurrentHeader :: "64 word"
  CurrentBlock :: "64 word"
  CurrentFastBlock :: "64 word"

text \<open>
  The first part of \<open>findAncestor\<close>: the range in which an ancestor is accepted and the
  request for the topmost headers. \<open>floor\<close>, \<open>from\<close> and \<open>limit\<close> are signed in the source;
  \<open>from\<close> is kept as the 64 bits of its \<open>int64\<close> and read through \<open>sint\<close>.
\<close>

record ancestorRange =
  floor_a :: int
  ceil_a :: "64 word"
  head_a :: "64 word"
  from_a :: "64 word"
  limit_a :: int
  count_a :: int

definition ancestorRange :: "SyncMode \<Rightarrow> chainHeads \<Rightarrow> 64 word \<Rightarrow> ancestorRange" where
  "ancestorRange mode0 chain height =
     (let ceil0 = (if mode0 = FullSync then CurrentBlock chain
                   else if mode0 = FastSync then CurrentFastBlock chain
                   else CurrentHeader chain);
          floor0 = (if ceil0 \<ge> MaxForkAncestry then sint (ceil0 - MaxForkAncestry) else - 1);
          head = (if ceil0 > height then height else ceil0);
          from0 = head - word_of_nat MaxHeaderFetch;
          from1 = (if sint from0 < 0 then 0 else from0);
          limit = (2 * int MaxHeaderFetch) div 16;
          count0 = 1 + quo (sint (ceil0 - from1)) 16
      in \<lparr>floor_a = floor0, ceil_a = ceil0, head_a = head, from_a = from1, limit_a = limit,
          count_a = (if count0 > limit then limit else count0)\<rparr>)"

text \<open>Whether the local chain already has a header: \<open>HasBlockAndState\<close> in full mode
  (the argument \<open>hasState\<close>), \<open>lightchain.HasHeader\<close> otherwise (\<open>hasHeader\<close>).\<close>

definition known :: "SyncMode \<Rightarrow> (hash \<Rightarrow> bool) \<Rightarrow> (hash \<Rightarrow> 64 word \<Rightarrow> bool) \<Rightarrow> header \<Rightarrow> bool" where
  "known mode0 hasState hasHeader h \<longleftrightarrow>
     (mode0 = FullSync \<and> hasState (Hash h))
     \<or> (mode0 \<noteq> FullSync \<and> hasHeader (Hash h) (Uint64 (Number h)))"

text \<open>The reply conforms to the request when header \<open>i\<close> has the number
  \<open>from + i * 16\<close> (compared as \<open>int64\<close>).\<close>

fun ordered_from :: "64 word \<Rightarrow> header list \<Rightarrow> bool" where
  "ordered_from f [] = True"
| "ordered_from f (h # hs) = (word_of_nat (Number h) = f \<and> ordered_from (f + 16) hs)"

text \<open>
  The search for a common ancestor, from the topmost header down; the argument is the
  reply reversed, so that the header at the front has as index the number of headers
  below it. The result is the stalling error or the \<open>number\<close> and \<open>hash\<close> the loop
  leaves (both zero when no header is known).
\<close>

fun scanTop :: "(header \<Rightarrow> bool) \<Rightarrow> ancestorRange \<Rightarrow> 64 word \<Rightarrow> header list \<Rightarrow> error + 64 word \<times> hash" where
  "scanTop kn r height [] = Inr (0, 0)"
| "scanTop kn r height (h # below) =
     (let i = int (length below) in
      if Int64 (Number h) < sint (from_a r) \<or> Uint64 (Number h) > ceil_a r
      then scanTop kn r height below
      else if kn h
      then (if Uint64 (Number h) > height \<and> i = limit_a r - 1 then Inl errStallingPeer
            else Inr (Uint64 (Number h), Hash h))
      else scanTop kn r height below)"

text \<open>
  What the linear probe ends with: the ancestor, or the interval \<open>start\<close>, \<open>end\<close> on which
  the binary search begins.
\<close>

datatype ancestorStep = Ancestor "64 word" | BinarySearch "64 word" "64 word"

definition probeReply ::
  "(header \<Rightarrow> bool) \<Rightarrow> ancestorRange \<Rightarrow> 64 word \<Rightarrow> header list \<Rightarrow> error + ancestorStep" where
  "probeReply kn r height headers =
     (if headers = [] then Inl errEmptyHeaderSet
      else if \<not> ordered_from (from_a r) headers then Inl errInvalidChain
      else case scanTop kn r height (rev headers) of
             Inl e \<Rightarrow> Inl e
           | Inr (number, hash0) \<Rightarrow>
               if hash0 \<noteq> 0
               then (if sint number \<le> floor_a r then Inl errInvalidAncestor else Inr (Ancestor number))
               else Inr (BinarySearch (if floor_a r > 0 then word_of_int (floor_a r) else 0) (head_a r)))"

text \<open>
  The \<open>select\<close> loop that waits for the reply, run on the events in the order in which
  they are selected: the cancel channel, the timeout, and deliveries on the header, body
  and receipt channels. \<open>None\<close>: the events end before the loop does.
\<close>

datatype event = Cancelled | TimedOut | HeaderPack string "header list" | BodyPack | ReceiptPack

fun probeWait ::
  "(header \<Rightarrow> bool) \<Rightarrow> ancestorRange \<Rightarrow> 64 word \<Rightarrow> string \<Rightarrow> event list \<Rightarrow> (error + ancestorStep) option" where
  "probeWait kn r height pid [] = None"
| "probeWait kn r height pid (Cancelled # es) = Some (Inl errCancelHeaderFetch)"
| "probeWait kn r height pid (TimedOut # es) = Some (Inl errTimeout)"
| "probeWait kn r height pid (HeaderPack sender headers # es) =
     (if sender \<noteq> pid then probeWait kn r height pid es
      else Some (probeReply kn r height headers))"
| "probeWait kn r height pid (BodyPack # es) = probeWait kn r height pid es"
| "probeWait kn r height pid (ReceiptPack # es) = probeWait kn r height pid es"

definition findAncestor_probe ::
  "SyncMode \<Rightarrow> chainHeads \<Rightarrow> (hash \<Rightarrow> bool) \<Rightarrow> (hash \<Rightarrow> 64 word \<Rightarrow> bool) \<Rightarrow>
   peerConnection \<Rightarrow> 64 word \<Rightarrow> event list \<Rightarrow> (error + ancestorStep) option" where
  "findAncestor_probe mode0 chain hasState hasHeader p height events =
     probeWait (known mode0 hasState hasHeader) (ancestorRange mode0 chain height) height (idP p) events"

text \<open>A reply of \<open>n\<close> headers with the numbers \<open>f\<close>, \<open>f + 16\<close>, ... and hash number + 1.\<close>

definition probe_headers :: "nat \<Rightarrow> nat \<Rightarrow> header list" where
  "probe_headers f n = map (\<lambda>i. \<lparr>Number = f + 16 * i, Hash = word_of_nat (f + 16 * i + 1)\<rparr>) [0..<n]"


section \<open>The generic fetch loop: \<open>fetchParts\<close>\<close>

text \<open>
  The first part of the \<open>update\<close> case of \<open>fetchParts\<close>. \<open>expire()\<close> returns a Go map
  from peer ids to failure counts; the list \<open>expired\<close> holds its entries in the order in
  which \<open>range\<close> visits them, each id once. \<open>demote\<close> is the loop over the entries.
\<close>

fun demote :: "lightSync \<Rightarrow> (string \<times> int) list \<Rightarrow> lightSync" where
  "demote this [] = this"
| "demote this ((pid, fails) # rest) =
     demote (case peers this pid of
               None \<Rightarrow> this
             | Some peer \<Rightarrow>
                 if fails > 2 then this\<lparr>calls := calls this @ [SetIdle peer 0]\<rparr>
                 else this\<lparr>calls := calls this @ [DropPeer pid]\<rparr>) rest"

text \<open>\<open>peers.Len()\<close>.\<close>

definition peersLen :: "lightSync \<Rightarrow> nat" where
  "peersLen this = card (dom (peers this))"

text \<open>The \<open>update\<close> case up to the end of the loop over \<open>expire()\<close>.\<close>

definition update_expire :: "lightSync \<Rightarrow> (string \<times> int) list \<Rightarrow> error + lightSync" where
  "update_expire this expired =
     (if peersLen this = 0 then Inl errNoPeers else Inr (demote this expired))"

section \<open>Quality of service: the round-trip estimate and its confidence\<close>

subsection \<open>Floating-point arithmetic\<close>

text \<open>
  Go's \<open>float64\<close> is IEEE 754 binary64 with rounding to nearest, ties to even. A finite
  \<open>float64\<close> is read as the rational number it stands for, and every operation gives the
  exact result rounded to 53 significant bits. The operations below meet values that
  are zero or of a magnitude between \<open>2\<^sup>-\<^sup>4\<^sup>5\<close> and \<open>2\<^sup>8\<^sup>4\<close>, well inside the normal range,
  so that neither overflow nor subnormal numbers occur.
\<close>





subsection \<open>Constants\<close>





subsection \<open>\<open>requestRTT\<close>, \<open>requestTTL\<close> and \<open>qosReduceConfidence\<close>\<close>





section \<open>The header processor: \<open>processHeaders\<close>\<close>

text \<open>
  What \<open>processHeaders\<close> asks of its collaborators, over a chain store \<open>'c\<close> and a
  scheduler \<open>'q\<close>: \<open>lightchain.HasHeader\<close>; \<open>lightchain.InsertHeaderChain\<close>, which gives
  the new store, the index \<open>n\<close> and whether it failed; \<open>sch.Schedule\<close>, which gives the
  new scheduler and the inserted headers; whether the cancel channel is closed when the
  loop polls it; whether the wait for room in the scheduler ends by cancellation; and
  the total difficulties of the local head block and head header.
\<close>

record ('c, 'q) collaborators =
  HasHeader :: "'c \<Rightarrow> hash \<Rightarrow> 64 word \<Rightarrow> bool"
  InsertHeaderChain :: "'c \<Rightarrow> header list \<Rightarrow> int \<Rightarrow> 'c \<times> int \<times> bool"
  Schedule :: "'q \<Rightarrow> header list \<Rightarrow> 64 word \<Rightarrow> 'q \<times> header list"
  CancelClosed :: "'c \<Rightarrow> 'q \<Rightarrow> bool"
  StallCancelled :: "'q \<Rightarrow> bool"
  CurrentBlockTd :: "'c \<Rightarrow> int"
  CurrentHeaderTd :: "'c \<Rightarrow> int"

text \<open>
  The state of \<open>processHeaders\<close>: the two collaborators, the list of uncertain headers
  and the running \<open>origin\<close>. A Go slice is a window on an array, and \<open>chunk[:n]\<close> may
  reach past the chunk's length up to its capacity, so the state also carries
  \<open>backing\<close>: what the array under the slice \<open>headers\<close> holds after the current chunk,
  that is \<open>headers[limit:cap(headers)]\<close>.
\<close>

record ('c, 'q) procState =
  lightchain :: 'c
  sch :: 'q
  rollback :: "header list"
  originP :: "64 word"
  backing :: "header list"

text \<open>
  How a part of the loop body ends: the loop goes on, the function returns (an error or
  \<open>nil\<close>), or an index is out of range and the Go runtime panics. The state that comes
  with \<open>Panic\<close> is the state at the statement that panics.
\<close>

datatype outcome = Continue | Return "error option" | Panic

text \<open>How often \<open>InsertHeaderChain\<close> is to verify a header of the chunk: every header
  when the chunk comes within \<open>fsHeaderForceVerify\<close> of the pivot.\<close>

definition verifyFrequency :: "64 word \<Rightarrow> header list \<Rightarrow> int" where
  "verifyFrequency pivot chunk =
     (if Uint64 (Number (last chunk)) + fsHeaderForceVerify > pivot then 1 else fsHeaderCheckFrequency)"

text \<open>
  The body of \<open>if this.mode == FastSync || this.mode == LightSync\<close>: collect the unknown
  headers, insert the chunk, and extend the \<open>rollback\<close> list. An empty chunk has no last
  header: \<open>chunk[len(chunk)-1]\<close> panics. After a failed insertion \<open>chunk[:n]\<close> is appended
  when \<open>n > 0\<close>: the slice expression panics when \<open>n\<close> is beyond the capacity, and takes
  headers of the backing array when \<open>n\<close> is beyond the length. Then the log statement
  reads \<open>chunk[n]\<close>, which panics unless \<open>0 \<le> n < len(chunk)\<close>.
\<close>

definition insertChunk ::
  "('c, 'q) collaborators \<Rightarrow> 64 word \<Rightarrow> ('c, 'q) procState \<Rightarrow> header list \<Rightarrow> outcome \<times> ('c, 'q) procState" where
  "insertChunk env pivot st chunk =
     (if chunk = [] then (Panic, st)
      else
       (let unknown = filter (\<lambda>h. \<not> HasHeader env (lightchain st) (Hash h) (Uint64 (Number h))) chunk;
            frequency = verifyFrequency pivot chunk;
            (c', n, failed) = InsertHeaderChain env (lightchain st) chunk frequency
        in if failed
           then (if n > 0 \<and> n > int (length chunk + length (backing st))
                 then (Panic, st\<lparr>lightchain := c'\<rparr>)
                 else (let st1 = st\<lparr>lightchain := c',
                                     rollback := (if n > 0 then rollback st @ take (nat n) (chunk @ backing st)
                                                  else rollback st)\<rparr>
                       in if n < 0 \<or> int (length chunk) \<le> n then (Panic, st1)
                          else (Return (Some errInvalidChain), st1)))
           else (let rb = rollback st @ unknown
                 in (Continue,
                     st\<lparr>lightchain := c',
                        rollback := (if length rb > fsHeaderSafetyNet
                                     then drop (length rb - fsHeaderSafetyNet) rb else rb)\<rparr>))))"

text \<open>The cross-check of the chunk against the locked pivot; \<open>int(...)\<close> of the
  \<open>uint64\<close> difference is its signed reading.\<close>

definition pivotCheck :: "SyncMode \<Rightarrow> header option \<Rightarrow> 64 word \<Rightarrow> header list \<Rightarrow> outcome" where
  "pivotCheck mode0 lock pivot chunk =
     (case lock of
        None \<Rightarrow> Continue
      | Some l \<Rightarrow>
          if mode0 = FastSync \<and> Uint64 (Number (hd chunk)) \<le> pivot \<and> Uint64 (Number (last chunk)) \<ge> pivot
          then (let i = sint (pivot - Uint64 (Number (hd chunk)))
                in if i < 0 \<or> int (length chunk) \<le> i then Panic
                   else if Hash (chunk ! nat i) \<noteq> Hash l then Return (Some errInvalidChain)
                   else Continue)
          else Continue)"

text \<open>The body of \<open>if this.mode == FullSync || this.mode == FastSync\<close>.\<close>

definition scheduleChunk ::
  "('c, 'q) collaborators \<Rightarrow> ('c, 'q) procState \<Rightarrow> header list \<Rightarrow> outcome \<times> ('c, 'q) procState" where
  "scheduleChunk env st chunk =
     (if StallCancelled env (sch st) then (Return (Some errCancelHeaderProcessing), st)
      else (let (q', inserts) = Schedule env (sch st) chunk (originP st)
            in if length inserts \<noteq> length chunk then (Return (Some errBadPeer), st\<lparr>sch := q'\<rparr>)
               else (Continue, st\<lparr>sch := q'\<rparr>)))"

text \<open>One chunk: the body of the loop \<open>for len(headers) > 0\<close> after the cancel poll.\<close>

definition processChunk ::
  "('c, 'q) collaborators \<Rightarrow> SyncMode \<Rightarrow> header option \<Rightarrow> 64 word \<Rightarrow> ('c, 'q) procState \<Rightarrow>
   header list \<Rightarrow> outcome \<times> ('c, 'q) procState" where
  "processChunk env mode0 lock pivot st chunk =
     (let (o1, st1) = (if mode0 = FastSync \<or> mode0 = LightSync then insertChunk env pivot st chunk
                       else (Continue, st))
      in if o1 \<noteq> Continue then (o1, st1)
         else (let o2 = pivotCheck mode0 lock pivot chunk
               in if o2 \<noteq> Continue then (o2, st1)
                  else if mode0 = FullSync \<or> mode0 = FastSync then scheduleChunk env st1 chunk
                  else (Continue, st1)))"

text \<open>
  The loop \<open>for len(headers) > 0\<close> over one batch of headers. \<open>spare\<close> is what the array
  under the batch holds between the batch's length and its capacity; \<open>headers[limit:]\<close>
  keeps it.
\<close>

function processBatch ::
  "('c, 'q) collaborators \<Rightarrow> SyncMode \<Rightarrow> header option \<Rightarrow> 64 word \<Rightarrow> ('c, 'q) procState \<Rightarrow>
   header list \<Rightarrow> header list \<Rightarrow> outcome \<times> ('c, 'q) procState" where
  "processBatch env mode0 lock pivot st headers spare =
     (if headers = [] then (Continue, st)
      else if CancelClosed env (lightchain st) (sch st) then (Return (Some errCancelHeaderProcessing), st)
      else (let limit = (if maxHeadersProcess > length headers then length headers else maxHeadersProcess);
                chunk = take limit headers;
                (o1, st1) = processChunk env mode0 lock pivot (st\<lparr>backing := drop limit headers @ spare\<rparr>) chunk
            in if o1 \<noteq> Continue then (o1, st1)
               else processBatch env mode0 lock pivot
                      (st1\<lparr>originP := originP st1 + word_of_nat limit\<rparr>) (drop limit headers) spare))"
  by pat_completeness auto
termination
  by (relation "measure (\<lambda>(env, mode0, lock, pivot, st, headers, spare). length headers)")
     (auto simp: maxHeadersProcess_def)

declare processBatch.simps [simp del]

text \<open>
  The outer loop, on the batches that arrive on \<open>headerProcCh\<close>, each a slice given by
  its headers and the spare part of its array; an empty batch ends the stream. With no
  batch left the loop waits: \<open>Continue\<close>.
\<close>

fun headerLoop ::
  "('c, 'q) collaborators \<Rightarrow> SyncMode \<Rightarrow> header option \<Rightarrow> 64 word \<Rightarrow> int \<Rightarrow> bool \<Rightarrow>
   ('c, 'q) procState \<Rightarrow> (header list \<times> header list) list \<Rightarrow> outcome \<times> ('c, 'q) procState" where
  "headerLoop env mode0 lock pivot td gotHeaders st [] = (Continue, st)"
| "headerLoop env mode0 lock pivot td gotHeaders st ((headers, spare) # rest) =
     (if CancelClosed env (lightchain st) (sch st) then (Return (Some errCancelHeaderProcessing), st)
      else if headers = []
      then (if mode0 \<noteq> LightSync \<and> \<not> gotHeaders \<and> td > CurrentBlockTd env (lightchain st)
            then (Return (Some errStallingPeer), st)
            else if (mode0 = FastSync \<or> mode0 = LightSync) \<and> td > CurrentHeaderTd env (lightchain st)
            then (Return (Some errStallingPeer), st)
            else (Return None, st\<lparr>rollback := []\<rparr>))
      else (case processBatch env mode0 lock pivot st headers spare of
              (Continue, st1) \<Rightarrow> headerLoop env mode0 lock pivot td True st1 rest
            | (out, st1) \<Rightarrow> (out, st1)))"

text \<open>\<open>processHeaders\<close>: \<open>pivot\<close> is \<open>sch.FastSyncPivot()\<close>, and the list of uncertain
  headers starts empty.\<close>

definition processHeaders ::
  "('c, 'q) collaborators \<Rightarrow> SyncMode \<Rightarrow> header option \<Rightarrow> 64 word \<Rightarrow> 64 word \<Rightarrow> int \<Rightarrow>
   ('c, 'q) procState \<Rightarrow> (header list \<times> header list) list \<Rightarrow> outcome \<times> ('c, 'q) procState" where
  "processHeaders env mode0 lock pivot origin td st batches =
     headerLoop env mode0 lock pivot td False (st\<lparr>rollback := [], originP := origin\<rparr>) batches"


section \<open>The known-hash sets of a peer (package p2p)\<close>

text \<open>
  \<open>set.Set\<close> of the library \<open>gopkg.in/fatih/set.v0\<close>, which holds its items as the keys
  of a Go map: a duplicate-free list, \<open>Size\<close> its length. \<open>Pop\<close> deletes an item that the
  map iteration chooses (and does nothing on the empty set): the argument \<open>pick\<close> stands
  for that choice.
\<close>

type_synonym 'a goset = "'a list"

definition set_Size :: "'a goset \<Rightarrow> nat" where
  "set_Size s = length s"

definition set_Has :: "'a goset \<Rightarrow> 'a \<Rightarrow> bool" where
  "set_Has s x = (x \<in> set s)"

definition set_Add :: "'a goset \<Rightarrow> 'a \<Rightarrow> 'a goset" where
  "set_Add s x = (if x \<in> set s then s else s @ [x])"

definition set_Pop :: "('a goset \<Rightarrow> nat) \<Rightarrow> 'a goset \<Rightarrow> 'a goset" where
  "set_Pop pick s =
     (if s = [] then [] else let i = pick s mod length s in take i s @ drop (Suc i) s)"

text \<open>The known-hash sets of a \<open>Peer\<close> and their capacities.\<close>

definition maxKnownTxs :: nat where "maxKnownTxs = 1000000"
definition maxKnownBlocks :: nat where "maxKnownBlocks = 100000"

record Peer =
  knownTxs :: "hash goset"
  knownBlocks :: "hash goset"

definition NewPeer :: Peer where
  "NewPeer = \<lparr>knownTxs = [], knownBlocks = []\<rparr>"

text \<open>\<open>Pop\<close> shrinks a non-empty set by one item, so the eviction loops end.\<close>

lemma length_remove_nth:
  "i < length s \<Longrightarrow> length (take i s @ drop (Suc i) s) = length s - 1"
  by simp

lemma length_set_Pop: "s \<noteq> [] \<Longrightarrow> length (set_Pop pick s) = length s - 1"
  by (simp add: set_Pop_def Let_def length_remove_nth del: length_append length_take length_drop)

text \<open>The loop \<open>for p.knownBlocks.Size() >= maxKnownBlocks { p.knownBlocks.Pop() }\<close>.\<close>

function knownBlocks_evict :: "(hash goset \<Rightarrow> nat) \<Rightarrow> hash goset \<Rightarrow> hash goset" where
  "knownBlocks_evict pick s =
     (if set_Size s \<ge> maxKnownBlocks then knownBlocks_evict pick (set_Pop pick s) else s)"
  by pat_completeness auto
termination
proof (relation "measure (\<lambda>(pick, s). length s)")
  show "wf (measure (\<lambda>(pick, s). length s))" by simp
next
  fix pick :: "hash goset \<Rightarrow> nat" and s :: "hash goset"
  assume "maxKnownBlocks \<le> set_Size s"
  then have "s \<noteq> []" by (auto simp: maxKnownBlocks_def set_Size_def)
  then show "((pick, set_Pop pick s), (pick, s)) \<in> measure (\<lambda>(pick, s). length s)"
    by (simp add: length_set_Pop)
qed

declare knownBlocks_evict.simps [simp del]

definition KnownBlockAdd :: "(hash goset \<Rightarrow> nat) \<Rightarrow> Peer \<Rightarrow> hash \<Rightarrow> Peer" where
  "KnownBlockAdd pick p h = p\<lparr>knownBlocks := set_Add (knownBlocks_evict pick (knownBlocks p)) h\<rparr>"

function knownTxs_evict :: "(hash goset \<Rightarrow> nat) \<Rightarrow> hash goset \<Rightarrow> hash goset" where
  "knownTxs_evict pick s =
     (if set_Size s \<ge> maxKnownTxs then knownTxs_evict pick (set_Pop pick s) else s)"
  by pat_completeness auto
termination
proof (relation "measure (\<lambda>(pick, s). length s)")
  show "wf (measure (\<lambda>(pick, s). length s))" by simp
next
  fix pick :: "hash goset \<Rightarrow> nat" and s :: "hash goset"
  assume "maxKnownTxs \<le> set_Size s"
  then have "s \<noteq> []" by (auto simp: maxKnownTxs_def set_Size_def)
  then show "((pick, set_Pop pick s), (pick, s)) \<in> measure (\<lambda>(pick, s). length s)"
    by (simp add: length_set_Pop)
qed

declare knownTxs_evict.simps [simp del]

definition KnownTxsAdd :: "(hash goset \<Rightarrow> nat) \<Rightarrow> Peer \<Rightarrow> hash \<Rightarrow> Peer" where
  "KnownTxsAdd pick p h = p\<lparr>knownTxs := set_Add (knownTxs_evict pick (knownTxs p)) h\<rparr>"

text \<open>A sequence of calls on a peer, each with the choices its \<open>Pop\<close>s make.\<close>

datatype peer_call = BlockAdd "hash goset \<Rightarrow> nat" hash | TxsAdd "hash goset \<Rightarrow> nat" hash

fun run_call :: "Peer \<Rightarrow> peer_call \<Rightarrow> Peer" where
  "run_call p (BlockAdd pick h) = KnownBlockAdd pick p h"
| "run_call p (TxsAdd pick h) = KnownTxsAdd pick p h"

text \<open>The invariant of the two sets.\<close>

definition known_ok :: "Peer \<Rightarrow> bool" where
  "known_ok p \<longleftrightarrow> set_Size (knownBlocks p) \<le> maxKnownBlocks \<and> set_Size (knownTxs p) \<le> maxKnownTxs
      \<and> distinct (knownBlocks p) \<and> distinct (knownTxs p)"

section \<open>Example states\<close>

text \<open>A synchroniser with the single registered peer \<open>''p''\<close>, used to run the
  functions on concrete inputs.\<close>

definition peer_p :: peerConnection where
  "peer_p = \<lparr>idP = ''p'', version = 111\<rparr>"

definition one_peer :: lightSync where
  "one_peer = newLightsync\<lparr>peers := [''p'' \<mapsto> peer_p]\<rparr>"

text \<open>A \<open>syncWithPeer\<close> whose peer never answers.\<close>

definition silent_peer :: "lightSync \<Rightarrow> peerConnection \<Rightarrow> hash \<Rightarrow> int \<Rightarrow> error option \<times> lightSync" where
  "silent_peer this p h td = (Some errTimeout, this)"

text \<open>
  A chain store and scheduler for running \<open>processHeaders\<close>: both are lists of headers;
  a header with the zero hash is invalid, and insertion stops at the first invalid
  header; the scheduler accepts every header.
\<close>

definition test_chain :: "(header list, header list) collaborators" where
  "test_chain =
     \<lparr>HasHeader = (\<lambda>c h n. \<exists>x \<in> set c. Hash x = h \<and> Uint64 (Number x) = n),
      InsertHeaderChain = (\<lambda>c chunk freq.
         let good = takeWhile (\<lambda>h. Hash h \<noteq> 0) chunk
         in if length good < length chunk then (c @ good, int (length good), True)
            else (c @ chunk, 0, False)),
      Schedule = (\<lambda>q chunk origin0. (q @ chunk, chunk)),
      CancelClosed = (\<lambda>c q. False),
      StallCancelled = (\<lambda>q. False),
      CurrentBlockTd = (\<lambda>c. 0),
      CurrentHeaderTd = (\<lambda>c. int (length c))\<rparr>"

text \<open>The header with number \<open>i\<close> and hash \<open>i\<close>, and the state before any header.\<close>

definition numbered :: "nat \<Rightarrow> header" where
  "numbered i = \<lparr>Number = i, Hash = word_of_nat i\<rparr>"

definition fresh :: "(header list, header list) procState" where
  "fresh = \<lparr>lightchain = [], sch = [], rollback = [], originP = 1, backing = []\<rparr>"


text \<open>
  A batch of 2050 headers, the last one invalid, with its two chunks and the states
  before the second chunk and at the end.
\<close>

definition overlong :: "header list" where
  "overlong = map numbered [1..<2050] @ [\<lparr>Number = 2050, Hash = 0\<rparr>]"

definition chunk1 :: "header list" where
  "chunk1 = map numbered [1..<2049]"

definition chunk2 :: "header list" where
  "chunk2 = [numbered 2049, \<lparr>Number = 2050, Hash = 0\<rparr>]"

definition after_chunk1 :: "(header list, header list) procState" where
  "after_chunk1 = \<lparr>lightchain = chunk1, sch = chunk1, rollback = chunk1, originP = 2049, backing = []\<rparr>"

definition after_overlong :: "(header list, header list) procState" where
  "after_overlong = \<lparr>lightchain = chunk1 @ [numbered 2049], sch = chunk1,
                      rollback = chunk1 @ [numbered 2049], originP = 2049, backing = []\<rparr>"

text \<open>
  A batch of 2049 good headers: the chunk \<open>chunk1\<close> and a chunk of one header. At the
  end the first header has left the list of uncertain headers.
\<close>

definition capped :: "header list" where
  "capped = map numbered [1..<2050]"

definition after_capped :: "(header list, header list) procState" where
  "after_capped = \<lparr>lightchain = chunk1 @ [numbered 2049], sch = chunk1 @ [numbered 2049],
                    rollback = drop 1 (chunk1 @ [numbered 2049]), originP = 2050, backing = []\<rparr>"




text \<open>A \<open>Pop\<close> that always removes the first item, and a known-block set at capacity.\<close>

definition first_pick :: "hash goset \<Rightarrow> nat" where
  "first_pick s = 0"

definition full_blocks :: "hash goset" where
  "full_blocks = map word_of_nat [0..<100000]"

section \<open>Properties of \<open>start\<close> and \<open>syn\<close>\<close>

text \<open>
  C3. When \<open>syn\<close> gets past its guards (no mock, no session running, the peer is
  registered), \<open>syncWithPeer\<close> runs on the state \<open>syn_session\<close> prepares; for a requested
  mode \<open>FastSync\<close> the mode of that state is \<open>FullSync\<close> if the pivot failure counter
  has reached \<open>fsCriticalTrials\<close>, and \<open>FastSync\<close> for every smaller count.
\<close>

theorem syn_fast_degrades:
  assumes "synchroniseMock this = None" and "synchronising this = 0"
    and "peers this id0 = Some p"
  shows "syn syncW this id0 h td FastSync =
           (case syncW (syn_session this id0 FastSync) p h td of
              (err, this') \<Rightarrow> (err, this'\<lparr>synchronising := 0\<rparr>))
         \<and> mode (syn_session this id0 FastSync) =
             (if fsCriticalTrials \<le> fsPivotFails this then FullSync else FastSync)"
  using assms by (simp add: syn_def syn_session_def Let_def)

theorem syn_fast_degrades_witness:
  "synchroniseMock (one_peer\<lparr>fsPivotFails := 10\<rparr>) = None
   \<and> synchronising (one_peer\<lparr>fsPivotFails := 10\<rparr>) = 0
   \<and> peers (one_peer\<lparr>fsPivotFails := 10\<rparr>) ''p'' = Some peer_p
   \<and> mode (syn_session (one_peer\<lparr>fsPivotFails := 10\<rparr>) ''p'' FastSync) = FullSync
   \<and> mode (syn_session one_peer ''p'' FastSync) = FastSync"
  using syn_fast_degrades [of "one_peer\<lparr>fsPivotFails := 10\<rparr>" "''p''" peer_p silent_peer 0 0]
        syn_fast_degrades [of one_peer "''p''" peer_p silent_peer 0 0]
  by (simp add: one_peer_def newLightsync_def fsCriticalTrials_def)

text \<open>
  C9. \<open>start\<close> returns the error of \<open>syn\<close>. On \<open>errTimeout\<close>, \<open>errBadPeer\<close>,
  \<open>errStallingPeer\<close>, \<open>errEmptyHeaderSet\<close>, \<open>errPeersUnavailable\<close>, \<open>errProVLowerBase\<close>,
  \<open>errInvalidAncestor\<close> and \<open>errInvalidChain\<close> it invokes \<open>dropPeer\<close> once, with the id of
  the peer it was asked to synchronise with; on success, on \<open>errBusy\<close> and on every
  other error it invokes nothing.
\<close>

theorem start_drop_policy:
  assumes "syn syncW this id0 head td m = (err, this')"
  shows "fst (start syncW this id0 head td m) = err
    \<and> (err \<in> {Some errTimeout, Some errBadPeer, Some errStallingPeer, Some errEmptyHeaderSet,
               Some errPeersUnavailable, Some errProVLowerBase, Some errInvalidAncestor,
               Some errInvalidChain}
        \<longrightarrow> snd (start syncW this id0 head td m)
              = this'\<lparr>calls := calls this' @ [DropPeer id0]\<rparr>)
    \<and> (err \<notin> {Some errTimeout, Some errBadPeer, Some errStallingPeer, Some errEmptyHeaderSet,
               Some errPeersUnavailable, Some errProVLowerBase, Some errInvalidAncestor,
               Some errInvalidChain}
        \<longrightarrow> snd (start syncW this id0 head td m) = this')"
  using assms by (cases err) (auto simp: start_def)

theorem start_drop_policy_witness:
  "syn silent_peer one_peer ''p'' 0 0 FullSync
     = (Some errTimeout, one_peer\<lparr>synchronising := 0, notified := 1, cancelPeer := ''p''\<rparr>)
   \<and> start silent_peer one_peer ''p'' 0 0 FullSync
     = (Some errTimeout,
        one_peer\<lparr>synchronising := 0, notified := 1, cancelPeer := ''p'', calls := [DropPeer ''p'']\<rparr>)"
proof -
  have s: "syn silent_peer one_peer ''p'' 0 0 FullSync
     = (Some errTimeout, one_peer\<lparr>synchronising := 0, notified := 1, cancelPeer := ''p''\<rparr>)"
    by (simp add: syn_def syn_session_def silent_peer_def one_peer_def newLightsync_def)
  show ?thesis
    using start_drop_policy [OF s] s
    by (simp add: prod_eq_iff one_peer_def newLightsync_def)
qed

section \<open>Properties of the pivot selection\<close>

lemma pivot_no_lock_le_height:
  assumes "pivotOffset < fsPivotInterval"
  shows "(if height > fsMinFullBlocks + Uint64 pivotOffset
          then height - fsMinFullBlocks - Uint64 pivotOffset else 0) \<le> height"
proof -
  have o: "unat (Uint64 pivotOffset) = pivotOffset"
    using assms by (simp add: Uint64_def fsPivotInterval_def unat_of_nat)
  have s: "unat (fsMinFullBlocks + Uint64 pivotOffset) = 64 + pivotOffset"
    using assms o by (simp add: fsMinFullBlocks_def fsPivotInterval_def unat_word_ariths)
  show ?thesis
  proof (cases "height > fsMinFullBlocks + Uint64 pivotOffset")
    case True
    then have "64 + pivotOffset < unat height" using s by (simp add: word_less_nat_alt)
    then have "height - fsMinFullBlocks - Uint64 pivotOffset \<le> height"
      using o by (simp add: fsMinFullBlocks_def word_le_nat_alt unat_sub_if')
    then show ?thesis using True by simp
  next
    case False then show ?thesis by simp
  qed
qed

text \<open>
  C2, as the code has it. In fast mode the adjusted origin is at most the pivot (not
  always below it); a pivot below the discovered origin rewinds the origin to
  \<open>pivot - 1\<close>, or to 0 for pivot 0, and otherwise the origin stays; the pivot is at most
  the peer's height when no pivot is locked in (a locked pivot is taken as it is).
\<close>

theorem selectPivot_fast:
  assumes "selectPivot FastSync lock pivotOffset height origin = (pivot, origin')"
    and "pivotOffset < fsPivotInterval"
  shows "origin' \<le> pivot
       \<and> (lock = None \<longrightarrow> pivot \<le> height)
       \<and> (pivot < origin \<longrightarrow> origin' = (if 0 < pivot then pivot - 1 else 0))
       \<and> (origin \<le> pivot \<longrightarrow> origin' = origin)
       \<and> (pivot < origin \<and> 0 < pivot \<longrightarrow> origin' < pivot)"
proof -
  define p where "p = (case lock of
                          None \<Rightarrow> if height > fsMinFullBlocks + Uint64 pivotOffset
                                  then height - fsMinFullBlocks - Uint64 pivotOffset else 0
                        | Some l \<Rightarrow> Uint64 (Number l))"
  have pv: "pivot = p" and og: "origin' = (if p < origin then (if p > 0 then p - 1 else 0) else origin)"
    using assms(1) unfolding selectPivot_def Let_def p_def[symmetric] by auto
  have le: "lock = None \<longrightarrow> p \<le> height"
    using pivot_no_lock_le_height [OF assms(2), of height] by (auto simp: p_def)
  have dec: "0 < p \<Longrightarrow> p - 1 < p"
    by (simp add: word_less_nat_alt unat_minus_one unat_gt_0)
  show ?thesis
    using le dec by (auto simp: pv og word_le_nat_alt word_less_nat_alt)
qed

theorem selectPivot_fast_witness:
  "selectPivot FastSync None 0 10000 9990 = (9936, 9935) \<and> (0::nat) < fsPivotInterval
   \<and> (9935 :: 64 word) \<le> 9936 \<and> (9936 :: 64 word) \<le> 10000"
proof -
  have s: "selectPivot FastSync None 0 10000 9990 = (9936, 9935)"
    by (simp add: selectPivot_def fsMinFullBlocks_def Uint64_def)
  have o: "(0::nat) < fsPivotInterval" by (simp add: fsPivotInterval_def)
  show ?thesis using selectPivot_fast [OF s o] s o by simp
qed

text \<open>
  C2, as the claim states it, fails: on a short chain the pivot is 0 and the origin is
  rewound to 0, which is not below the pivot; and a locked pivot is used even when it
  lies above the peer's height.
\<close>

theorem selectPivot_fast_counterexample:
  "selectPivot FastSync None 0 10 5 = (0, 0)
   \<and> selectPivot FastSync (Some \<lparr>Number = 2000, Hash = 7\<rparr>) 0 1000 10 = (2000, 10)
   \<and> \<not> (0 :: 64 word) < 0 \<and> \<not> (2000 :: 64 word) \<le> 1000"
  by (simp add: selectPivot_def fsMinFullBlocks_def Uint64_def)

section \<open>Properties of the fetch loop\<close>

lemma calls_demote:
  "calls (demote this expired) =
     calls this @ concat (map (\<lambda>(pid, fails). case peers this pid of
                                  None \<Rightarrow> []
                                | Some peer \<Rightarrow> if fails > 2 then [SetIdle peer 0] else [DropPeer pid]) expired)"
  and peers_demote: "peers (demote this expired) = peers this"
  by (induction this expired rule: demote.induct) (auto split: option.splits)

text \<open>
  C1, as the code has it. Among the callbacks that one pass over \<open>expire()\<close> adds: a
  registered peer reported with more than 2 failures is set idle with 0 accepted items
  and is not dropped; a registered peer reported with at most 2 failures is dropped and
  is not set idle. (The peer set holds each peer under its own id.)
\<close>

theorem demote_policy:
  assumes "distinct (map fst expired)" and "(pid, fails) \<in> set expired"
    and "peers this pid = Some peer"
    and "\<forall>k q. peers this k = Some q \<longrightarrow> idP q = k"
    and "new = drop (length (calls this)) (calls (demote this expired))"
  shows "(2 < fails \<longrightarrow> SetIdle peer 0 \<in> set new \<and> DropPeer pid \<notin> set new)
       \<and> (fails \<le> 2 \<longrightarrow> DropPeer pid \<in> set new \<and> SetIdle peer 0 \<notin> set new)"
proof -
  let ?f = "\<lambda>(pid, fails). case peers this pid of
                                  None \<Rightarrow> []
                                | Some peer \<Rightarrow> if fails > 2 then [SetIdle peer (0::int)] else [DropPeer pid]"
  have new: "new = concat (map ?f expired)"
    using assms(5) by (simp add: calls_demote)
  have uniq: "\<And>n. (pid, n) \<in> set expired \<Longrightarrow> n = fails"
    using assms(1,2) by (meson eq_key_imp_eq_value)
  have mem: "?f (pid, fails) = (if 2 < fails then [SetIdle peer 0] else [DropPeer pid])"
    using assms(3) by simp
  have setnew: "set new = (\<Union>x\<in>set expired. set (?f x))"
    by (simp add: new)
  have "set (?f (pid, fails)) \<subseteq> set new"
    unfolding setnew using assms(2) by blast
  then have in_new: "(if 2 < fails then SetIdle peer 0 else DropPeer pid) \<in> set new"
    unfolding mem by (simp split: if_splits)
  have drop_in: "fails \<le> 2" if "DropPeer pid \<in> set new"
  proof -
    from that obtain k n where kn: "(k, n) \<in> set expired" "DropPeer pid \<in> set (?f (k, n))"
      unfolding setnew by auto
    then have "k = pid" "\<not> 2 < n" by (auto split: option.splits if_splits)
    then show ?thesis using kn(1) uniq by auto
  qed
  have idle_in: "2 < fails" if "SetIdle peer 0 \<in> set new"
  proof -
    from that obtain k n where kn: "(k, n) \<in> set expired" "SetIdle peer 0 \<in> set (?f (k, n))"
      unfolding setnew by auto
    then have "peers this k = Some peer" "2 < n" by (auto split: option.splits if_splits)
    then have "k = pid" "2 < n" using assms(3,4) by auto
    then show ?thesis using kn(1) uniq by auto
  qed
  show ?thesis using in_new drop_in idle_in by (auto split: if_splits)
qed

theorem demote_policy_witness:
  "distinct (map fst [(''p'', 3 :: int)]) \<and> (''p'', 3) \<in> set [(''p'', 3 :: int)]
   \<and> peers one_peer ''p'' = Some peer_p
   \<and> SetIdle peer_p 0 \<in> set (drop (length (calls one_peer)) (calls (demote one_peer [(''p'', 3)])))
   \<and> DropPeer ''p'' \<notin> set (drop (length (calls one_peer)) (calls (demote one_peer [(''p'', 3)])))"
proof -
  have h1: "distinct (map fst [(''p'', 3 :: int)])" and h2: "(''p'', 3) \<in> set [(''p'', 3 :: int)]"
    by simp_all
  have h3: "peers one_peer ''p'' = Some peer_p"
    by (simp add: one_peer_def)
  have h4: "\<forall>k q. peers one_peer k = Some q \<longrightarrow> idP q = k"
    by (simp add: one_peer_def peer_p_def)
  show ?thesis using demote_policy [OF h1 h2 h3 h4 refl] h1 h2 h3 h4 by simp
qed

lemma peersLen_one_peer: "peersLen one_peer = 1"
  by (simp add: peersLen_def one_peer_def newLightsync_def)

text \<open>
  C1, as the claim states it, fails: a registered peer reported with one failure is
  dropped (and not set idle), and one reported with three failures is kept and set idle
  with 0 accepted items.
\<close>

theorem demote_policy_counterexample:
  "update_expire one_peer [(''p'', 1)] = Inr (one_peer\<lparr>calls := [DropPeer ''p'']\<rparr>)
   \<and> update_expire one_peer [(''p'', 3)] = Inr (one_peer\<lparr>calls := [SetIdle peer_p 0]\<rparr>)"
  by (simp add: update_expire_def peersLen_one_peer) (simp add: one_peer_def newLightsync_def)

section \<open>Properties of the ancestor search\<close>

lemma limit_ancestorRange: "limit_a (ancestorRange mode0 chain height) = 24"
  by (simp add: ancestorRange_def Let_def MaxHeaderFetch_def)

lemma scanTop_top_lied:
  assumes "kn h" and "sint (from_a r) \<le> Int64 (Number h)" and "Uint64 (Number h) \<le> ceil_a r"
    and "height < Uint64 (Number h)" and "int (length below) = limit_a r - 1"
  shows "scanTop kn r height (h # below) = Inl errStallingPeer"
  using assms by (simp add: Let_def leD)

text \<open>
  C6, as the code has it. When the master peer's reply holds 24 headers (the limit
  \<open>2 * MaxHeaderFetch / 16\<close>) in the requested order, and its topmost header lies in
  the requested range, is known locally and has a number above the peer's reported
  height, the search returns \<open>errStallingPeer\<close>.
\<close>

theorem findAncestor_lied:
  assumes "r = ancestorRange mode0 chain height"
    and "length headers = 24"
    and "ordered_from (from_a r) headers"
    and "known mode0 hasState hasHeader (last headers)"
    and "sint (from_a r) \<le> Int64 (Number (last headers))"
    and "Uint64 (Number (last headers)) \<le> ceil_a r"
    and "height < Uint64 (Number (last headers))"
  shows "findAncestor_probe mode0 chain hasState hasHeader p height
           (HeaderPack (idP p) headers # es) = Some (Inl errStallingPeer)"
proof -
  have ne: "headers \<noteq> []" using assms(2) by auto
  then have rv: "rev headers = last headers # rev (butlast headers)"
    by (metis append_butlast_last_id rev.simps(2) rev_rev_ident rev_singleton_conv rev_append singleton_rev_conv)
  have len: "int (length (rev (butlast headers))) = limit_a r - 1"
    using assms(1,2) by (simp add: limit_ancestorRange)
  have "scanTop (known mode0 hasState hasHeader) r height (rev headers) = Inl errStallingPeer"
    unfolding rv using assms(4-7) len by (rule scanTop_top_lied)
  then show ?thesis
    using ne assms(1,3) by (simp add: findAncestor_probe_def probeReply_def)
qed

theorem findAncestor_lied_witness:
  "findAncestor_probe LightSync \<lparr>CurrentHeader = 1000, CurrentBlock = 0, CurrentFastBlock = 0\<rparr>
     (\<lambda>_. False) (\<lambda>_ _. True) peer_p 200 [HeaderPack (idP peer_p) (probe_headers 8 24)]
   = Some (Inl errStallingPeer)"
proof -
  let ?r = "ancestorRange LightSync \<lparr>CurrentHeader = 1000, CurrentBlock = 0, CurrentFastBlock = 0\<rparr> 200"
  have h2: "length (probe_headers 8 24) = 24" by code_simp
  have h3: "ordered_from (from_a ?r) (probe_headers 8 24)" by code_simp
  have h4: "known LightSync (\<lambda>_. False) (\<lambda>_ _. True) (last (probe_headers 8 24))" by code_simp
  have h5: "sint (from_a ?r) \<le> Int64 (Number (last (probe_headers 8 24)))" by code_simp
  have h6: "Uint64 (Number (last (probe_headers 8 24))) \<le> ceil_a ?r" by code_simp
  have h7: "200 < Uint64 (Number (last (probe_headers 8 24)))" by code_simp
  show ?thesis by (rule findAncestor_lied [OF refl h2 h3 h4 h5 h6 h7])
qed

text \<open>
  C6, as the claim states it, fails: the test \<open>i == limit-1\<close> confines the error to a
  reply of full length. With the local head at 100 and a reported height of 10 the peer
  is asked for 7 headers; the topmost, number 96, is known and above the reported height,
  and the search returns it as the ancestor.
\<close>

theorem findAncestor_lied_counterexample:
  "findAncestor_probe LightSync \<lparr>CurrentHeader = 100, CurrentBlock = 0, CurrentFastBlock = 0\<rparr>
     (\<lambda>_. False) (\<lambda>_ _. True) peer_p 10 [HeaderPack ''p'' (probe_headers 0 7)]
   = Some (Inr (Ancestor 96))
   \<and> probe_headers 0 7 \<noteq> []
   \<and> known LightSync (\<lambda>_. False) (\<lambda>_ _. True) (last (probe_headers 0 7))
   \<and> Uint64 (Number (last (probe_headers 0 7))) = 96 \<and> (10 :: 64 word) < 96"
  by code_simp

section \<open>Properties of the header processor\<close>

text \<open>What \<open>insertChunk\<close> does to the list of uncertain headers, by the answer of
  \<open>InsertHeaderChain\<close>.\<close>

lemma insertChunk_failed:
  assumes "chunk \<noteq> []"
    and "InsertHeaderChain env (lightchain s) chunk (verifyFrequency pivot chunk) = (c', n, True)"
    and "0 \<le> n" and "n < int (length chunk)"
  shows "insertChunk env pivot s chunk
           = (Return (Some errInvalidChain), s\<lparr>lightchain := c', rollback := rollback s @ take (nat n) chunk\<rparr>)"
proof -
  have "nat n \<le> length chunk" using assms(3,4) by simp
  then have "take (nat n) (chunk @ backing s) = take (nat n) chunk" by simp
  moreover have "n = 0 \<Longrightarrow> take (nat n) chunk = []" by simp
  ultimately show ?thesis
    using assms by (cases "n = 0") (simp_all add: insertChunk_def Let_def)
qed

lemma insertChunk_inserted:
  assumes "chunk \<noteq> []"
    and "InsertHeaderChain env (lightchain s) chunk (verifyFrequency pivot chunk) = (c', n, False)"
  shows "insertChunk env pivot s chunk
           = (Continue,
              s\<lparr>lightchain := c',
                rollback := (let rb = rollback s @ filter (\<lambda>h. \<not> HasHeader env (lightchain s) (Hash h) (Uint64 (Number h))) chunk
                             in drop (length rb - fsHeaderSafetyNet) rb)\<rparr>)"
  using assms by (simp add: insertChunk_def Let_def)

lemma insertChunk_panic:
  assumes "InsertHeaderChain env (lightchain s) chunk (verifyFrequency pivot chunk) = (c', n, True)"
    and "n < 0 \<or> int (length chunk) \<le> n"
  shows "fst (insertChunk env pivot s chunk) = Panic"
  using assms by (auto simp: insertChunk_def Let_def)

text \<open>After the insertion, the pivot check and the scheduling leave the list alone.\<close>

lemma processChunk_rollback_eq:
  "rollback (snd (processChunk env mode0 lock pivot s chunk))
     = (if mode0 = FastSync \<or> mode0 = LightSync then rollback (snd (insertChunk env pivot s chunk))
        else rollback s)"
  by (auto simp: processChunk_def scheduleChunk_def Let_def split: prod.splits if_splits)

lemma processChunk_inserted:
  assumes "mode0 = FastSync \<or> mode0 = LightSync" and "chunk \<noteq> []"
    and "InsertHeaderChain env (lightchain s) chunk (verifyFrequency pivot chunk) = (c', n, False)"
  shows "rollback (snd (processChunk env mode0 lock pivot s chunk))
           = (let rb = rollback s @ filter (\<lambda>h. \<not> HasHeader env (lightchain s) (Hash h) (Uint64 (Number h))) chunk
              in drop (length rb - fsHeaderSafetyNet) rb)"
  using assms(1) by (simp add: processChunk_rollback_eq insertChunk_inserted [OF assms(2,3)])

lemma processChunk_failed:
  assumes "mode0 = FastSync \<or> mode0 = LightSync" and "chunk \<noteq> []"
    and "InsertHeaderChain env (lightchain s) chunk (verifyFrequency pivot chunk) = (c', n, True)"
    and "0 \<le> n" and "n < int (length chunk)"
  shows "processChunk env mode0 lock pivot s chunk
           = (Return (Some errInvalidChain), s\<lparr>lightchain := c', rollback := rollback s @ take (nat n) chunk\<rparr>)"
  using assms(1) by (auto simp: processChunk_def insertChunk_failed [OF assms(2-5)])

text \<open>
  The list of uncertain headers is longer than \<open>fsHeaderSafetyNet\<close> only after a failed
  insertion: it is then a list within the bound followed by the \<open>n\<close> inserted headers of
  the chunk.
\<close>

lemma processChunk_rollback:
  fixes s :: "('c, 'q) procState" and env :: "('c, 'q) collaborators"
  assumes "processChunk env mode0 lock pivot s chunk = (out, s1)"
    and "length (rollback s) \<le> fsHeaderSafetyNet" and "chunk \<noteq> []"
    and "length chunk \<le> maxHeadersProcess" and "out \<noteq> Panic"
  shows "length (rollback s1) \<le> fsHeaderSafetyNet
       \<or> (out = Return (Some errInvalidChain) \<and> (mode0 = FastSync \<or> mode0 = LightSync)
          \<and> (\<exists>(s :: ('c, 'q) procState) chunk c' n.
                InsertHeaderChain env (lightchain s) chunk (verifyFrequency pivot chunk) = (c', n, True)
                \<and> 0 < n \<and> n < int (length chunk) \<and> length chunk \<le> maxHeadersProcess
                \<and> length (rollback s) \<le> fsHeaderSafetyNet
                \<and> rollback s1 = rollback s @ take (nat n) chunk))"
proof (cases "mode0 = FastSync \<or> mode0 = LightSync")
  case mode: True
  obtain c' n failed
    where ihc: "InsertHeaderChain env (lightchain s) chunk (verifyFrequency pivot chunk) = (c', n, failed)"
    by (cases "InsertHeaderChain env (lightchain s) chunk (verifyFrequency pivot chunk)")
  show ?thesis
  proof (cases failed)
    case True
    have ihc: "InsertHeaderChain env (lightchain s) chunk (verifyFrequency pivot chunk) = (c', n, True)"
      using ihc True by simp
    show ?thesis
    proof (cases "0 \<le> n \<and> n < int (length chunk)")
      case range: True
      then have r: "(out, s1) = (Return (Some errInvalidChain),
                       s\<lparr>lightchain := c', rollback := rollback s @ take (nat n) chunk\<rparr>)"
        using processChunk_failed [OF mode assms(3) ihc] assms(1) by simp
      show ?thesis
      proof (cases "n = 0")
        case True
        then show ?thesis using r assms(2) by simp
      next
        case False
        then have "0 < n" using range by simp
        moreover have "rollback s1 = rollback s @ take (nat n) chunk" using r by simp
        ultimately show ?thesis using r mode ihc range assms(2,4) by blast
      qed
    next
      case False
      then have "fst (insertChunk env pivot s chunk) = Panic"
        using insertChunk_panic [OF ihc] by auto
      then have "out = Panic"
        using assms(1) mode by (auto simp: processChunk_def split: prod.splits)
      then show ?thesis using assms(5) by simp
    qed
  next
    case False
    define rb where "rb = rollback s @ filter (\<lambda>h. \<not> HasHeader env (lightchain s) (Hash h) (Uint64 (Number h))) chunk"
    have ihc: "InsertHeaderChain env (lightchain s) chunk (verifyFrequency pivot chunk) = (c', n, False)"
      using ihc False by simp
    have "rollback (snd (processChunk env mode0 lock pivot s chunk)) = drop (length rb - fsHeaderSafetyNet) rb"
      unfolding processChunk_inserted [OF mode assms(3) ihc] rb_def Let_def by (rule refl)
    then have "rollback s1 = drop (length rb - fsHeaderSafetyNet) rb"
      by (simp only: assms(1) snd_conv)
    then have "length (rollback s1) \<le> fsHeaderSafetyNet" by simp
    then show ?thesis by simp
  qed
next
  case False
  then have "rollback s1 = rollback s"
    using processChunk_rollback_eq [of env mode0 lock pivot s chunk] assms(1) by simp
  then show ?thesis using assms(2) by simp
qed

lemma processBatch_rollback:
  fixes st :: "('c, 'q) procState"
  assumes "processBatch env mode0 lock pivot st headers spare = (out, st')"
    and "length (rollback st) \<le> fsHeaderSafetyNet" and "out \<noteq> Panic"
  shows "length (rollback st') \<le> fsHeaderSafetyNet
       \<or> (out = Return (Some errInvalidChain) \<and> (mode0 = FastSync \<or> mode0 = LightSync)
          \<and> (\<exists>(s :: ('c, 'q) procState) chunk c' n.
                InsertHeaderChain env (lightchain s) chunk (verifyFrequency pivot chunk) = (c', n, True)
                \<and> 0 < n \<and> n < int (length chunk) \<and> length chunk \<le> maxHeadersProcess
                \<and> length (rollback s) \<le> fsHeaderSafetyNet
                \<and> rollback st' = rollback s @ take (nat n) chunk))"
  using assms
proof (induction env mode0 lock pivot st headers spare rule: processBatch.induct)
  case (1 env mode0 lock pivot st headers spare)
  show ?case
  proof (cases "headers = [] \<or> CancelClosed env (lightchain st) (sch st)")
    case True
    then have "st' = st" using "1.prems"(1)
      by (subst (asm) processBatch.simps) (auto split: if_splits)
    then show ?thesis using "1.prems"(2) by simp
  next
    case False
    define limit where "limit = (if maxHeadersProcess > length headers then length headers else maxHeadersProcess)"
    define chunk where "chunk = take limit headers"
    define s where "s = st\<lparr>backing := drop limit headers @ spare\<rparr>"
    obtain o1 st1 where pc: "processChunk env mode0 lock pivot s chunk = (o1, st1)"
      by (cases "processChunk env mode0 lock pivot s chunk")
    have ne: "chunk \<noteq> []" and le: "length chunk \<le> maxHeadersProcess"
      using False by (auto simp: chunk_def limit_def maxHeadersProcess_def)
    have inv: "length (rollback s) \<le> fsHeaderSafetyNet" using "1.prems"(2) by (simp add: s_def)
    show ?thesis
    proof (cases "o1 = Continue")
      case True
      have rec: "processBatch env mode0 lock pivot (st1\<lparr>originP := originP st1 + word_of_nat limit\<rparr>)
                   (drop limit headers) spare = (out, st')"
        using "1.prems"(1) False pc True
        by (subst (asm) processBatch.simps) (simp add: limit_def chunk_def s_def Let_def)
      have "length (rollback st1) \<le> fsHeaderSafetyNet"
        using processChunk_rollback [OF pc inv ne le] True by auto
      then have "length (rollback (st1\<lparr>originP := originP st1 + word_of_nat limit\<rparr>)) \<le> fsHeaderSafetyNet"
        by simp
      from "1.IH" [OF _ _ limit_def chunk_def pc [symmetric, unfolded s_def] refl _ rec this "1.prems"(3)] False True
      show ?thesis by simp
    next
      case False2: False
      have "(out, st') = (o1, st1)"
        using "1.prems"(1) False pc False2
        by (subst (asm) processBatch.simps) (simp add: limit_def chunk_def s_def Let_def)
      then have "processChunk env mode0 lock pivot s chunk = (out, st')" using pc by simp
      from processChunk_rollback [OF this inv ne le "1.prems"(3)] show ?thesis .
    qed
  qed
qed

lemma processChunk_no_success:
  "processChunk env mode0 lock pivot st chunk = (out, st1) \<Longrightarrow> out \<noteq> Return None"
  by (auto simp: processChunk_def insertChunk_def pivotCheck_def scheduleChunk_def Let_def
      split: prod.splits if_splits option.splits)

lemma processBatch_no_success:
  "processBatch env mode0 lock pivot st headers spare = (out, st') \<Longrightarrow> out \<noteq> Return None"
proof (induction env mode0 lock pivot st headers spare rule: processBatch.induct)
  case (1 env mode0 lock pivot st headers spare)
  show ?case
  proof
    assume n: "out = Return None"
    define limit where "limit = (if maxHeadersProcess > length headers then length headers else maxHeadersProcess)"
    define chunk where "chunk = take limit headers"
    define s where "s = st\<lparr>backing := drop limit headers @ spare\<rparr>"
    obtain o1 st1 where pc: "processChunk env mode0 lock pivot s chunk = (o1, st1)"
      by (cases "processChunk env mode0 lock pivot s chunk")
    have o1: "o1 \<noteq> Return None" using pc by (rule processChunk_no_success)
    have a: "headers \<noteq> []" "\<not> CancelClosed env (lightchain st) (sch st)"
      using "1.prems" n by (subst (asm) processBatch.simps, auto split: if_splits)+
    have "o1 = Continue"
      using "1.prems" n a pc o1
      by (subst (asm) processBatch.simps) (auto simp: limit_def chunk_def s_def Let_def split: if_splits)
    then have rec: "processBatch env mode0 lock pivot (st1\<lparr>originP := originP st1 + word_of_nat limit\<rparr>)
                   (drop limit headers) spare = (out, st')"
      using "1.prems" a pc
      by (subst (asm) processBatch.simps) (simp add: limit_def chunk_def s_def Let_def)
    from "1.IH" [OF a limit_def chunk_def pc [symmetric, unfolded s_def] refl _ rec] \<open>o1 = Continue\<close> n
    show False by simp
  qed
qed

lemma headerLoop_rollback:
  fixes st :: "('c, 'q) procState"
  assumes "headerLoop env mode0 lock pivot td got st batches = (out, st')"
    and "length (rollback st) \<le> fsHeaderSafetyNet" and "out \<noteq> Panic"
  shows "(out = Return None \<longrightarrow> rollback st' = [])
       \<and> (length (rollback st') \<le> fsHeaderSafetyNet
          \<or> (out = Return (Some errInvalidChain) \<and> (mode0 = FastSync \<or> mode0 = LightSync)
          \<and> (\<exists>(s :: ('c, 'q) procState) chunk c' n.
                InsertHeaderChain env (lightchain s) chunk (verifyFrequency pivot chunk) = (c', n, True)
                \<and> 0 < n \<and> n < int (length chunk) \<and> length chunk \<le> maxHeadersProcess
                \<and> length (rollback s) \<le> fsHeaderSafetyNet
                \<and> rollback st' = rollback s @ take (nat n) chunk)))"
  using assms
proof (induction batches arbitrary: st got)
  case Nil
  then show ?case by auto
next
  case (Cons batch rest)
  obtain headers spare where batch: "batch = (headers, spare)" by (cases batch)
  show ?case
  proof (cases "CancelClosed env (lightchain st) (sch st) \<or> headers = []")
    case True
    then have "(out \<noteq> Return None \<and> st' = st) \<or> (out = Return None \<and> st' = st\<lparr>rollback := []\<rparr>)"
      using Cons.prems(1) batch by (auto split: if_splits)
    then show ?thesis using Cons.prems(2) by auto
  next
    case False
    obtain o1 st1 where pb: "processBatch env mode0 lock pivot st headers spare = (o1, st1)"
      by (cases "processBatch env mode0 lock pivot st headers spare")
    show ?thesis
    proof (cases "o1 = Continue")
      case True
      then have run: "headerLoop env mode0 lock pivot td True st1 rest = (out, st')"
        using Cons.prems(1) False pb batch by simp
      have "length (rollback st1) \<le> fsHeaderSafetyNet"
        using processBatch_rollback [OF pb Cons.prems(2)] True by auto
      from Cons.IH [OF run this Cons.prems(3)] show ?thesis .
    next
      case False2: False
      then have eq: "(out, st') = (o1, st1)"
        using Cons.prems(1) False pb batch by (cases o1) auto
      then have "processBatch env mode0 lock pivot st headers spare = (out, st')" using pb by simp
      from processBatch_rollback [OF this Cons.prems(2,3)] processBatch_no_success [OF this]
      show ?thesis by simp
    qed
  qed
qed


lemma numbered_valid: "0 < a \<Longrightarrow> b \<le> 2 ^ 256 \<Longrightarrow> \<forall>h \<in> set (map numbered [a..<b]). Hash h \<noteq> 0"
  by (auto simp: numbered_def unat_of_nat word_neq_0_conv unat_gt_0 [symmetric] simp del: unat_gt_0 word_neq_0_conv)

lemma takeWhile_numbered:
  "0 < a \<Longrightarrow> b \<le> 2 ^ 256 \<Longrightarrow> takeWhile (\<lambda>h. Hash h \<noteq> 0) (map numbered [a..<b]) = map numbered [a..<b]"
  using numbered_valid [of a b] by (simp add: takeWhile_eq_all_conv)

lemma numbered_fresh:
  assumes "b \<le> m" and "m < 2 ^ 256"
  shows "\<forall>h \<in> set (map numbered [a..<b]). Hash h \<noteq> Hash (numbered m)"
proof
  fix h assume "h \<in> set (map numbered [a..<b])"
  then obtain i where i: "h = numbered i" "i < b" by auto
  have "unat (word_of_nat i :: 256 word) = i" "unat (word_of_nat m :: 256 word) = m"
    using i(2) assms by (simp_all add: unat_of_nat)
  then have "(word_of_nat i :: 256 word) \<noteq> word_of_nat m" using i(2) assms(1) by auto
  then show "Hash h \<noteq> Hash (numbered m)" by (simp add: i(1) numbered_def)
qed

lemma processBatch_unfold:
  assumes "headers \<noteq> []" and "\<not> CancelClosed env (lightchain st) (sch st)"
    and "limit = (if maxHeadersProcess > length headers then length headers else maxHeadersProcess)"
    and "processChunk env mode0 lock pivot (st\<lparr>backing := drop limit headers @ spare\<rparr>) (take limit headers) = (o1, st1)"
  shows "processBatch env mode0 lock pivot st headers spare =
           (if o1 \<noteq> Continue then (o1, st1)
            else processBatch env mode0 lock pivot (st1\<lparr>originP := originP st1 + word_of_nat limit\<rparr>)
                   (drop limit headers) spare)"
  using assms by (subst processBatch.simps) (simp add: Let_def)

lemma overlong_split:
  "take 2048 overlong = chunk1" "drop 2048 overlong = chunk2" "length overlong = 2050"
  "length chunk1 = 2048" "length chunk2 = 2"
  "take 2048 capped = chunk1" "drop 2048 capped = [numbered 2049]" "length capped = 2049"
  by (simp_all add: overlong_def capped_def chunk1_def chunk2_def take_map drop_map upt_rec_numeral)

lemma first_chunk:
  "processChunk test_chain FastSync None 5000 (fresh\<lparr>backing := b\<rparr>) chunk1
     = (Continue, after_chunk1\<lparr>originP := 1, backing := b\<rparr>)"
proof -
  have tw: "takeWhile (\<lambda>h. Hash h \<noteq> 0) chunk1 = chunk1"
    unfolding chunk1_def by (rule takeWhile_numbered) simp_all
  have ne: "chunk1 \<noteq> []" using overlong_split(4) by auto
  have ins: "insertChunk test_chain 5000 (fresh\<lparr>backing := b\<rparr>) chunk1
               = (Continue, fresh\<lparr>backing := b, lightchain := chunk1, rollback := chunk1\<rparr>)"
    by (simp add: insertChunk_def ne test_chain_def fresh_def Let_def tw overlong_split fsHeaderSafetyNet_def)
  show ?thesis
    by (simp add: processChunk_def ins pivotCheck_def scheduleChunk_def)
       (simp add: test_chain_def fresh_def after_chunk1_def)
qed

lemma chunk2_insert:
  "InsertHeaderChain test_chain (lightchain after_chunk1) chunk2 (verifyFrequency 5000 chunk2)
     = (chunk1 @ [numbered 2049], 1, True)"
  by (simp add: test_chain_def after_chunk1_def chunk2_def numbered_def)

lemma second_chunk:
  "processChunk test_chain FastSync None 5000 after_chunk1 chunk2
     = (Return (Some errInvalidChain), after_overlong)"
proof -
  have ne: "chunk2 \<noteq> []" by (simp add: chunk2_def)
  have "processChunk test_chain FastSync None 5000 after_chunk1 chunk2
     = (Return (Some errInvalidChain),
        after_chunk1\<lparr>lightchain := chunk1 @ [numbered 2049], rollback := rollback after_chunk1 @ take (nat 1) chunk2\<rparr>)"
    by (rule processChunk_failed [OF _ ne chunk2_insert]) (simp_all add: chunk2_def)
  then show ?thesis by (simp add: after_chunk1_def after_overlong_def chunk2_def)
qed

lemma overlong_batch:
  "processBatch test_chain FastSync None 5000 fresh overlong [] = (Return (Some errInvalidChain), after_overlong)"
proof -
  have c: "\<not> CancelClosed test_chain c q" for c q by (simp add: test_chain_def)
  have n1: "overlong \<noteq> []" and n2: "chunk2 \<noteq> []" using overlong_split(3,5) by auto
  have l1: "2048 = (if maxHeadersProcess > length overlong then length overlong else maxHeadersProcess)"
    and l2: "2 = (if maxHeadersProcess > length chunk2 then length chunk2 else maxHeadersProcess)"
    by (simp_all add: overlong_split maxHeadersProcess_def)
  have s1: "(after_chunk1\<lparr>originP := 1, backing := chunk2\<rparr>)
              \<lparr>originP := originP (after_chunk1\<lparr>originP := 1, backing := chunk2\<rparr>) + word_of_nat 2048\<rparr>
            = after_chunk1\<lparr>backing := chunk2\<rparr>"
    by (simp add: after_chunk1_def)
  have s2: "after_chunk1\<lparr>backing := chunk2, backing := drop 2 chunk2 @ []\<rparr> = after_chunk1"
    by (simp add: after_chunk1_def overlong_split)
  have f1: "processChunk test_chain FastSync None 5000 (fresh\<lparr>backing := drop 2048 overlong @ []\<rparr>) (take 2048 overlong)
              = (Continue, after_chunk1\<lparr>originP := 1, backing := chunk2\<rparr>)"
    by (simp only: overlong_split first_chunk append_Nil2)
  have f2: "processChunk test_chain FastSync None 5000
              (after_chunk1\<lparr>backing := chunk2, backing := drop 2 chunk2 @ []\<rparr>) (take 2 chunk2)
            = (Return (Some errInvalidChain), after_overlong)"
    unfolding s2 using second_chunk overlong_split(5) by simp
  have "processBatch test_chain FastSync None 5000 fresh overlong []
        = processBatch test_chain FastSync None 5000 (after_chunk1\<lparr>backing := chunk2\<rparr>) chunk2 []"
    using processBatch_unfold [OF n1 c l1 f1] by (simp only: overlong_split s1) simp
  also have "\<dots> = (Return (Some errInvalidChain), after_overlong)"
    using processBatch_unfold [OF n2 c l2 f2] by simp
  finally show ?thesis .
qed

lemma last_insert:
  "InsertHeaderChain test_chain (lightchain after_chunk1) [numbered 2049] (verifyFrequency 5000 [numbered 2049])
     = (chunk1 @ [numbered 2049], 0, False)"
  by (simp add: test_chain_def after_chunk1_def numbered_def)

lemma last_unknown:
  "filter (\<lambda>h. \<not> HasHeader test_chain (lightchain after_chunk1) (Hash h) (Uint64 (Number h))) [numbered 2049]
     = [numbered 2049]"
proof -
  have "\<forall>h \<in> set chunk1. Hash h \<noteq> Hash (numbered 2049)"
    unfolding chunk1_def by (rule numbered_fresh) simp_all
  then show ?thesis by (auto simp: test_chain_def after_chunk1_def)
qed

lemma last_chunk:
  "processChunk test_chain FastSync None 5000 after_chunk1 [numbered 2049]
     = (Continue, after_capped\<lparr>originP := 2049\<rparr>)"
proof -
  have len: "length (chunk1 @ [numbered 2049]) - fsHeaderSafetyNet = 1"
    by (simp add: overlong_split fsHeaderSafetyNet_def)
  have "insertChunk test_chain 5000 after_chunk1 [numbered 2049]
          = (Continue,
             after_chunk1\<lparr>lightchain := chunk1 @ [numbered 2049],
               rollback := (let rb = rollback after_chunk1 @ filter (\<lambda>h. \<not> HasHeader test_chain (lightchain after_chunk1) (Hash h) (Uint64 (Number h))) [numbered 2049]
                            in drop (length rb - fsHeaderSafetyNet) rb)\<rparr>)"
    by (rule insertChunk_inserted [OF _ last_insert]) simp
  also have "rollback after_chunk1 = chunk1" by (simp add: after_chunk1_def)
  finally have ins: "insertChunk test_chain 5000 after_chunk1 [numbered 2049]
          = (Continue, after_chunk1\<lparr>lightchain := chunk1 @ [numbered 2049], rollback := drop 1 (chunk1 @ [numbered 2049])\<rparr>)"
    unfolding last_unknown Let_def len .
  show ?thesis
    unfolding processChunk_def ins
    by (simp add: pivotCheck_def scheduleChunk_def test_chain_def after_chunk1_def after_capped_def del: drop_append)
qed

lemma capped_batch:
  "processBatch test_chain FastSync None 5000 fresh capped [] = (Continue, after_capped)"
proof -
  have c: "\<not> CancelClosed test_chain c q" for c q by (simp add: test_chain_def)
  have n1: "capped \<noteq> []" using overlong_split(8) by auto
  have n2: "[numbered 2049] \<noteq> []" by simp
  have l1: "2048 = (if maxHeadersProcess > length capped then length capped else maxHeadersProcess)"
    and l2: "1 = (if maxHeadersProcess > length [numbered 2049] then length [numbered 2049] else maxHeadersProcess)"
    by (simp_all add: overlong_split maxHeadersProcess_def)
  have s1: "(after_chunk1\<lparr>originP := 1, backing := [numbered 2049]\<rparr>)
              \<lparr>originP := originP (after_chunk1\<lparr>originP := 1, backing := [numbered 2049]\<rparr>) + word_of_nat 2048\<rparr>
            = after_chunk1\<lparr>backing := [numbered 2049]\<rparr>"
    by (simp add: after_chunk1_def)
  have s2: "after_chunk1\<lparr>backing := [numbered 2049], backing := drop 1 [numbered 2049] @ []\<rparr> = after_chunk1"
    by (simp add: after_chunk1_def)
  have s3: "(after_capped\<lparr>originP := 2049\<rparr>)\<lparr>originP := originP (after_capped\<lparr>originP := 2049\<rparr>) + word_of_nat 1\<rparr>
            = after_capped"
    by (simp add: after_capped_def)
  have f1: "processChunk test_chain FastSync None 5000 (fresh\<lparr>backing := drop 2048 capped @ []\<rparr>) (take 2048 capped)
              = (Continue, after_chunk1\<lparr>originP := 1, backing := [numbered 2049]\<rparr>)"
    by (simp only: overlong_split first_chunk append_Nil2)
  have f2: "processChunk test_chain FastSync None 5000
              (after_chunk1\<lparr>backing := [numbered 2049], backing := drop 1 [numbered 2049] @ []\<rparr>) (take 1 [numbered 2049])
            = (Continue, after_capped\<lparr>originP := 2049\<rparr>)"
    unfolding s2 using last_chunk by simp
  have e: "processBatch test_chain FastSync None 5000 after_capped [] [] = (Continue, after_capped)"
    by (subst processBatch.simps) simp
  have "processBatch test_chain FastSync None 5000 fresh capped []
        = processBatch test_chain FastSync None 5000 (after_chunk1\<lparr>backing := [numbered 2049]\<rparr>) [numbered 2049] []"
    using processBatch_unfold [OF n1 c l1 f1] by (simp only: overlong_split s1) simp
  also have "\<dots> = processBatch test_chain FastSync None 5000 after_capped [] []"
    using processBatch_unfold [OF n2 c l2 f2] by (simp only: s3) simp
  finally show ?thesis using e by simp
qed

lemma capped_run:
  "processHeaders test_chain FastSync None 5000 1 3000 fresh [(capped, [])] = (Continue, after_capped)"
proof -
  have f: "fresh\<lparr>rollback := [], originP := 1\<rparr> = fresh" by (simp add: fresh_def)
  have c: "\<not> CancelClosed test_chain c q" for c q by (simp add: test_chain_def)
  have n: "capped \<noteq> []" using overlong_split(8) by auto
  show ?thesis by (simp add: processHeaders_def f c n capped_batch)
qed

text \<open>
  C5, as the claim states it, fails: when \<open>InsertHeaderChain\<close> fails after inserting
  \<open>n > 0\<close> headers, these are appended to the list, which is not cut afterwards. A batch
  of 2048 good headers, one more good header and an invalid one leaves 2049 headers to
  roll back.
\<close>

theorem rollback_counterexample:
  "fst (processHeaders test_chain FastSync None 5000 1 3000 fresh [(overlong, [])]) = Return (Some errInvalidChain)
   \<and> length (rollback (snd (processHeaders test_chain FastSync None 5000 1 3000 fresh [(overlong, [])]))) = 2049
   \<and> fsHeaderSafetyNet = 2048"
proof -
  have f: "fresh\<lparr>rollback := [], originP := 1\<rparr> = fresh" by (simp add: fresh_def)
  have c: "\<not> CancelClosed test_chain c q" for c q by (simp add: test_chain_def)
  have n: "overlong \<noteq> []" using overlong_split(3) by auto
  show ?thesis
    by (simp add: processHeaders_def f c n overlong_batch fsHeaderSafetyNet_def overlong_split after_overlong_def)
qed

text \<open>
  C5, as the code has it, for every run of \<open>processHeaders\<close> that does not panic. The
  list of uncertain headers holds fewer than \<open>fsHeaderSafetyNet + maxHeadersProcess\<close>
  headers. It holds at most \<open>fsHeaderSafetyNet\<close> headers wherever the function waits for
  the next batch and on every return but \<open>errInvalidChain\<close>; after a return of \<open>nil\<close> it
  is empty. A list longer than \<open>fsHeaderSafetyNet\<close> comes from a failed insertion only:
  it is a list within the bound followed by the \<open>n\<close> headers that \<open>InsertHeaderChain\<close>
  inserted before it failed. For one chunk in fast or light mode: after an insertion
  without error the list is the old list followed by the chunk's unknown headers, cut
  to its last \<open>fsHeaderSafetyNet\<close> headers, however the chunk ends after that (pivot
  mismatch, cancellation, a stale schedule, or the next chunk); after an insertion that
  fails at index \<open>n\<close> within the chunk, the first \<open>n\<close> headers of the chunk are appended,
  the list is not cut and \<open>errInvalidChain\<close> is returned. In full mode the list is not
  touched.
\<close>

theorem rollback_safety_net:
  fixes st s :: "('c, 'q) procState"
  assumes "processHeaders env mode0 lock pivot origin td st batches = (out, st')"
  shows "(out \<noteq> Panic \<longrightarrow> length (rollback st') < fsHeaderSafetyNet + maxHeadersProcess)
       \<and> (out \<noteq> Panic \<longrightarrow> out \<noteq> Return (Some errInvalidChain) \<longrightarrow>
            length (rollback st') \<le> fsHeaderSafetyNet)
       \<and> (out = Return None \<longrightarrow> rollback st' = [])
       \<and> (out \<noteq> Panic \<longrightarrow> fsHeaderSafetyNet < length (rollback st') \<longrightarrow>
            (out = Return (Some errInvalidChain) \<and> (mode0 = FastSync \<or> mode0 = LightSync)
          \<and> (\<exists>(s :: ('c, 'q) procState) chunk c' n.
                InsertHeaderChain env (lightchain s) chunk (verifyFrequency pivot chunk) = (c', n, True)
                \<and> 0 < n \<and> n < int (length chunk) \<and> length chunk \<le> maxHeadersProcess
                \<and> length (rollback s) \<le> fsHeaderSafetyNet
                \<and> rollback st' = rollback s @ take (nat n) chunk)))
       \<and> (chunk \<noteq> [] \<longrightarrow> mode0 = FastSync \<or> mode0 = LightSync \<longrightarrow>
            InsertHeaderChain env (lightchain s) chunk (verifyFrequency pivot chunk) = (c', n, False) \<longrightarrow>
            rollback (snd (processChunk env mode0 lock pivot s chunk))
              = (let rb = rollback s @ filter (\<lambda>h. \<not> HasHeader env (lightchain s) (Hash h) (Uint64 (Number h))) chunk
                 in drop (length rb - fsHeaderSafetyNet) rb))
       \<and> (chunk \<noteq> [] \<longrightarrow> mode0 = FastSync \<or> mode0 = LightSync \<longrightarrow>
            InsertHeaderChain env (lightchain s) chunk (verifyFrequency pivot chunk) = (c', n, True) \<longrightarrow>
            0 \<le> n \<longrightarrow> n < int (length chunk) \<longrightarrow>
            processChunk env mode0 lock pivot s chunk
              = (Return (Some errInvalidChain),
                 s\<lparr>lightchain := c', rollback := rollback s @ take (nat n) chunk\<rparr>))
       \<and> (mode0 = FullSync \<longrightarrow> rollback (snd (processChunk env mode0 lock pivot s chunk)) = rollback s)"
proof -
  have inv: "length (rollback (st\<lparr>rollback := [], originP := origin\<rparr>)) \<le> fsHeaderSafetyNet" by simp
  have run: "out \<noteq> Panic \<Longrightarrow>
       (out = Return None \<longrightarrow> rollback st' = [])
       \<and> (length (rollback st') \<le> fsHeaderSafetyNet
          \<or> (out = Return (Some errInvalidChain) \<and> (mode0 = FastSync \<or> mode0 = LightSync)
          \<and> (\<exists>(s :: ('c, 'q) procState) chunk c' n.
                InsertHeaderChain env (lightchain s) chunk (verifyFrequency pivot chunk) = (c', n, True)
                \<and> 0 < n \<and> n < int (length chunk) \<and> length chunk \<le> maxHeadersProcess
                \<and> length (rollback s) \<le> fsHeaderSafetyNet
                \<and> rollback st' = rollback s @ take (nat n) chunk)))"
    by (rule headerLoop_rollback [OF assms [unfolded processHeaders_def] inv])
  have a: "out \<noteq> Panic \<longrightarrow> length (rollback st') < fsHeaderSafetyNet + maxHeadersProcess"
  proof
    assume "out \<noteq> Panic"
    from run [OF this] show "length (rollback st') < fsHeaderSafetyNet + maxHeadersProcess"
      by (auto simp: maxHeadersProcess_def)
  qed
  have d: "chunk \<noteq> [] \<longrightarrow> mode0 = FastSync \<or> mode0 = LightSync \<longrightarrow>
            InsertHeaderChain env (lightchain s) chunk (verifyFrequency pivot chunk) = (c', n, False) \<longrightarrow>
            rollback (snd (processChunk env mode0 lock pivot s chunk))
              = (let rb = rollback s @ filter (\<lambda>h. \<not> HasHeader env (lightchain s) (Hash h) (Uint64 (Number h))) chunk
                 in drop (length rb - fsHeaderSafetyNet) rb)"
    using processChunk_inserted [of mode0 chunk env s pivot c' n lock] by blast
  have c: "chunk \<noteq> [] \<longrightarrow> mode0 = FastSync \<or> mode0 = LightSync \<longrightarrow>
            InsertHeaderChain env (lightchain s) chunk (verifyFrequency pivot chunk) = (c', n, True) \<longrightarrow>
            0 \<le> n \<longrightarrow> n < int (length chunk) \<longrightarrow>
            processChunk env mode0 lock pivot s chunk
              = (Return (Some errInvalidChain),
                 s\<lparr>lightchain := c', rollback := rollback s @ take (nat n) chunk\<rparr>)"
    using processChunk_failed [of mode0 chunk env s pivot c' n lock] by blast
  have e: "mode0 = FullSync \<longrightarrow> rollback (snd (processChunk env mode0 lock pivot s chunk)) = rollback s"
    by (simp add: processChunk_rollback_eq)
  have nle: "fsHeaderSafetyNet < length (rollback st') \<Longrightarrow> \<not> length (rollback st') \<le> fsHeaderSafetyNet"
    by simp
  show ?thesis
    apply (intro conjI)
    subgoal by (rule a)
    subgoal using run by blast
    subgoal using run by blast
    subgoal using run nle by blast
    subgoal by (rule d)
    subgoal by (rule c)
    subgoal by (rule e)
    done
qed

theorem rollback_safety_net_witness:
  "processHeaders test_chain FastSync None 5000 1 3000 fresh [(capped, [])] = (Continue, after_capped)
   \<and> length (rollback after_capped) = fsHeaderSafetyNet
   \<and> rollback (snd (processChunk test_chain FastSync None 5000 after_chunk1 [numbered 2049]))
       = drop 1 (chunk1 @ [numbered 2049])
   \<and> processChunk test_chain FastSync None 5000 after_chunk1 chunk2
       = (Return (Some errInvalidChain), after_overlong)
   \<and> length (rollback after_overlong) = fsHeaderSafetyNet + 1"
proof -
  note t1 = rollback_safety_net [OF capped_run, where s = after_chunk1 and chunk = "[numbered 2049]"
              and c' = "chunk1 @ [numbered 2049]" and n = 0]
  note t2 = rollback_safety_net [OF capped_run, where s = after_chunk1 and chunk = chunk2
              and c' = "chunk1 @ [numbered 2049]" and n = 1]
  have len: "length (chunk1 @ [numbered 2049]) - fsHeaderSafetyNet = 1"
    by (simp add: overlong_split fsHeaderSafetyNet_def)
  have r: "rollback after_chunk1 = chunk1" by (simp add: after_chunk1_def)
  have "rollback (snd (processChunk test_chain FastSync None 5000 after_chunk1 [numbered 2049]))
          = (let rb = rollback after_chunk1 @ filter (\<lambda>h. \<not> HasHeader test_chain (lightchain after_chunk1) (Hash h) (Uint64 (Number h))) [numbered 2049]
             in drop (length rb - fsHeaderSafetyNet) rb)"
    using t1 last_insert by simp
  then have w1: "rollback (snd (processChunk test_chain FastSync None 5000 after_chunk1 [numbered 2049]))
          = drop 1 (chunk1 @ [numbered 2049])"
    unfolding last_unknown r Let_def len .
  have ne: "chunk2 \<noteq> []" by (simp add: chunk2_def)
  have "processChunk test_chain FastSync None 5000 after_chunk1 chunk2
       = (Return (Some errInvalidChain),
          after_chunk1\<lparr>lightchain := chunk1 @ [numbered 2049], rollback := rollback after_chunk1 @ take (nat 1) chunk2\<rparr>)"
    using t2 chunk2_insert ne by (simp add: chunk2_def)
  then have w2: "processChunk test_chain FastSync None 5000 after_chunk1 chunk2
       = (Return (Some errInvalidChain), after_overlong)"
    by (simp add: after_chunk1_def after_overlong_def chunk2_def)
  have w3: "length (rollback after_capped) = fsHeaderSafetyNet"
    "length (rollback after_overlong) = fsHeaderSafetyNet + 1"
    by (simp_all add: after_capped_def after_overlong_def overlong_split fsHeaderSafetyNet_def)
  show ?thesis using capped_run w1 w2 w3 by simp
qed








section \<open>Properties of the floating-point arithmetic\<close>














section \<open>Properties of the request timings\<close>





section \<open>Properties of the confidence\<close>





section \<open>Properties of the known-hash sets\<close>

lemma distinct_remove_nth: "distinct s \<Longrightarrow> distinct (take i s @ drop (Suc i) s)"
proof -
  assume "distinct s"
  then have "distinct (take i s @ drop i s)" by simp
  then have "distinct (take i s @ tl (drop i s))"
  proof -
    have "set (tl (drop i s)) \<subseteq> set (drop i s)"
      by (cases "drop i s") auto
    then show ?thesis
      using \<open>distinct (take i s @ drop i s)\<close> unfolding distinct_append
      by (auto simp: distinct_tl)
  qed
  then show ?thesis by (simp add: drop_Suc tl_drop)
qed

lemma distinct_set_Pop: "distinct s \<Longrightarrow> distinct (set_Pop pick s)"
  by (simp add: set_Pop_def Let_def distinct_remove_nth del: distinct_append)

lemma knownBlocks_evict_below:
  "set_Size (knownBlocks_evict pick s) < maxKnownBlocks"
proof (induction pick s rule: knownBlocks_evict.induct)
  case (1 pick s)
  then show ?case by (subst knownBlocks_evict.simps) simp
qed


lemma knownTxs_evict_below:
  "set_Size (knownTxs_evict pick s) < maxKnownTxs"
proof (induction pick s rule: knownTxs_evict.induct)
  case (1 pick s)
  then show ?case by (subst knownTxs_evict.simps) simp
qed

lemma distinct_knownBlocks_evict: "distinct s \<Longrightarrow> distinct (knownBlocks_evict pick s)"
proof (induction pick s rule: knownBlocks_evict.induct)
  case (1 pick s)
  then show ?case by (subst knownBlocks_evict.simps) (simp add: distinct_set_Pop)
qed

lemma distinct_knownTxs_evict: "distinct s \<Longrightarrow> distinct (knownTxs_evict pick s)"
proof (induction pick s rule: knownTxs_evict.induct)
  case (1 pick s)
  then show ?case by (subst knownTxs_evict.simps) (simp add: distinct_set_Pop)
qed

lemma set_Add_props:
  "set_Size (set_Add s x) \<le> Suc (set_Size s)" "distinct s \<Longrightarrow> distinct (set_Add s x)"
  "set_Has (set_Add s x) x"
  by (simp_all add: set_Add_def set_Size_def set_Has_def)

lemma known_ok_run_call: "known_ok p \<Longrightarrow> known_ok (run_call p c)"
proof (cases c)
  case (BlockAdd pick h)
  assume ok: "known_ok p"
  have "set_Size (set_Add (knownBlocks_evict pick (knownBlocks p)) h) \<le> maxKnownBlocks"
    using knownBlocks_evict_below [of pick "knownBlocks p"]
          set_Add_props(1) [of "knownBlocks_evict pick (knownBlocks p)" h] by linarith
  then show ?thesis
    using ok BlockAdd
    by (simp add: known_ok_def KnownBlockAdd_def set_Add_props(2) distinct_knownBlocks_evict)
next
  case (TxsAdd pick h)
  assume ok: "known_ok p"
  have "set_Size (set_Add (knownTxs_evict pick (knownTxs p)) h) \<le> maxKnownTxs"
    using knownTxs_evict_below [of pick "knownTxs p"]
          set_Add_props(1) [of "knownTxs_evict pick (knownTxs p)" h] by linarith
  then show ?thesis
    using ok TxsAdd
    by (simp add: known_ok_def KnownTxsAdd_def set_Add_props(2) distinct_knownTxs_evict)
qed

lemma known_ok_run: "known_ok p \<Longrightarrow> known_ok (foldl run_call p cs)"
  by (induction cs arbitrary: p) (simp_all add: known_ok_run_call)

lemma set_Pop_subset: "set (set_Pop pick s) \<subseteq> set s"
proof -
  have "set (take i s @ drop (Suc i) s) \<subseteq> set s" for i
    using set_take_subset [of i s] set_drop_subset [of "Suc i" s] by auto
  then show ?thesis by (simp add: set_Pop_def Let_def)
qed

lemma knownBlocks_evict_id: "set_Size s < maxKnownBlocks \<Longrightarrow> knownBlocks_evict pick s = s"
  by (subst knownBlocks_evict.simps) simp

lemma knownTxs_evict_id: "set_Size s < maxKnownTxs \<Longrightarrow> knownTxs_evict pick s = s"
  by (subst knownTxs_evict.simps) simp

lemma knownBlocks_evict_subset: "set (knownBlocks_evict pick s) \<subseteq> set s"
proof (induction pick s rule: knownBlocks_evict.induct)
  case (1 pick s)
  then show ?case using set_Pop_subset [of pick s] by (subst knownBlocks_evict.simps) auto
qed

lemma knownTxs_evict_subset: "set (knownTxs_evict pick s) \<subseteq> set s"
proof (induction pick s rule: knownTxs_evict.induct)
  case (1 pick s)
  then show ?case using set_Pop_subset [of pick s] by (subst knownTxs_evict.simps) auto
qed

lemma knownBlocks_evict_size:
  "set_Size (knownBlocks_evict pick s) = min (set_Size s) (maxKnownBlocks - 1)"
proof (induction pick s rule: knownBlocks_evict.induct)
  case (1 pick s)
  show ?case
  proof (cases "set_Size s \<ge> maxKnownBlocks")
    case True
    then have ne: "s \<noteq> []" by (auto simp: set_Size_def maxKnownBlocks_def)
    have "set_Size (knownBlocks_evict pick s) = min (set_Size (set_Pop pick s)) (maxKnownBlocks - 1)"
      using "1.IH" [OF True] True by (subst knownBlocks_evict.simps) simp
    then show ?thesis using True ne by (simp add: set_Size_def length_set_Pop)
  next
    case False
    then show ?thesis by (simp add: knownBlocks_evict_id)
  qed
qed

lemma knownTxs_evict_size:
  "set_Size (knownTxs_evict pick s) = min (set_Size s) (maxKnownTxs - 1)"
proof (induction pick s rule: knownTxs_evict.induct)
  case (1 pick s)
  show ?case
  proof (cases "set_Size s \<ge> maxKnownTxs")
    case True
    then have ne: "s \<noteq> []" by (auto simp: set_Size_def maxKnownTxs_def)
    have "set_Size (knownTxs_evict pick s) = min (set_Size (set_Pop pick s)) (maxKnownTxs - 1)"
      using "1.IH" [OF True] True by (subst knownTxs_evict.simps) simp
    then show ?thesis using True ne by (simp add: set_Size_def length_set_Pop)
  next
    case False
    then show ?thesis by (simp add: knownTxs_evict_id)
  qed
qed

lemma set_set_Add: "set (set_Add s x) = insert x (set s)"
  by (auto simp: set_Add_def)

text \<open>
  C10. After every sequence of \<open>KnownBlockAdd\<close> and \<open>KnownTxsAdd\<close> calls on a new peer,
  whatever the \<open>Pop\<close>s choose, the known-block set holds at most \<open>maxKnownBlocks\<close>
  hashes and the known-transaction set at most \<open>maxKnownTxs\<close> (the lists are
  duplicate-free, so their length is the size of the set); each eviction loop leaves
  its set below capacity, and the hash is in the set after the call. The eviction
  loop removes no more than it has to: a set below capacity is left as it is, a set
  at or above capacity is cut to one below capacity, and what remains was in the set
  before. After the call the set holds the remaining hashes and the new one, and the
  other set of the peer is unchanged.
\<close>

theorem known_sets_bounded:
  "set_Size (knownBlocks (foldl run_call NewPeer cs)) \<le> maxKnownBlocks
   \<and> set_Size (knownTxs (foldl run_call NewPeer cs)) \<le> maxKnownTxs
   \<and> distinct (knownBlocks (foldl run_call NewPeer cs))
   \<and> distinct (knownTxs (foldl run_call NewPeer cs))
   \<and> set_Size (knownBlocks_evict pick s) < maxKnownBlocks
   \<and> set_Size (knownTxs_evict pick s) < maxKnownTxs
   \<and> set_Has (knownBlocks (KnownBlockAdd pick p h)) h
   \<and> set_Has (knownTxs (KnownTxsAdd pick p h)) h
   \<and> (set_Size s < maxKnownBlocks \<longrightarrow> knownBlocks_evict pick s = s)
   \<and> (set_Size s < maxKnownTxs \<longrightarrow> knownTxs_evict pick s = s)
   \<and> set (knownBlocks_evict pick s) \<subseteq> set s
   \<and> set (knownTxs_evict pick s) \<subseteq> set s
   \<and> set_Size (knownBlocks_evict pick s) = min (set_Size s) (maxKnownBlocks - 1)
   \<and> set_Size (knownTxs_evict pick s) = min (set_Size s) (maxKnownTxs - 1)
   \<and> set (knownBlocks (KnownBlockAdd pick p h)) = insert h (set (knownBlocks_evict pick (knownBlocks p)))
   \<and> set (knownTxs (KnownTxsAdd pick p h)) = insert h (set (knownTxs_evict pick (knownTxs p)))
   \<and> knownTxs (KnownBlockAdd pick p h) = knownTxs p
   \<and> knownBlocks (KnownTxsAdd pick p h) = knownBlocks p"
proof -
  have "known_ok NewPeer"
    by (simp add: known_ok_def NewPeer_def set_Size_def)
  then have "known_ok (foldl run_call NewPeer cs)" by (rule known_ok_run)
  then have 1: "set_Size (knownBlocks (foldl run_call NewPeer cs)) \<le> maxKnownBlocks
   \<and> set_Size (knownTxs (foldl run_call NewPeer cs)) \<le> maxKnownTxs
   \<and> distinct (knownBlocks (foldl run_call NewPeer cs))
   \<and> distinct (knownTxs (foldl run_call NewPeer cs))"
    by (simp add: known_ok_def)
  have 2: "set_Has (knownBlocks (KnownBlockAdd pick p h)) h \<and> set_Has (knownTxs (KnownTxsAdd pick p h)) h
   \<and> set (knownBlocks (KnownBlockAdd pick p h)) = insert h (set (knownBlocks_evict pick (knownBlocks p)))
   \<and> set (knownTxs (KnownTxsAdd pick p h)) = insert h (set (knownTxs_evict pick (knownTxs p)))
   \<and> knownTxs (KnownBlockAdd pick p h) = knownTxs p
   \<and> knownBlocks (KnownTxsAdd pick p h) = knownBlocks p"
    by (simp add: KnownBlockAdd_def KnownTxsAdd_def set_Add_props(3) set_set_Add)
  show ?thesis
    using 1 2 knownBlocks_evict_below [of pick s] knownTxs_evict_below [of pick s]
      knownBlocks_evict_id [of s pick] knownTxs_evict_id [of s pick]
      knownBlocks_evict_subset [of pick s] knownTxs_evict_subset [of pick s]
      knownBlocks_evict_size [of pick s] knownTxs_evict_size [of pick s]
    by blast
qed

theorem known_sets_bounded_witness:
  "knownBlocks (foldl run_call NewPeer [BlockAdd first_pick 1, TxsAdd first_pick 3, BlockAdd first_pick 2]) = [1, 2]
   \<and> knownTxs (foldl run_call NewPeer [BlockAdd first_pick 1, TxsAdd first_pick 3, BlockAdd first_pick 2]) = [3]
   \<and> set_Size full_blocks = maxKnownBlocks
   \<and> set_Size (knownBlocks_evict first_pick full_blocks) = 99999
   \<and> set_Size (knownBlocks (KnownBlockAdd first_pick (NewPeer\<lparr>knownBlocks := full_blocks\<rparr>) 100000)) \<le> 100000"
proof -
  have e: "knownBlocks_evict first_pick [] = []" "knownBlocks_evict first_pick [1] = [1]"
    "knownTxs_evict first_pick [] = []"
    using known_sets_bounded [where s = "[]" and pick = first_pick]
          known_sets_bounded [where s = "[1]" and pick = first_pick]
    by (simp_all add: set_Size_def maxKnownBlocks_def maxKnownTxs_def)
  have f: "set_Size full_blocks = 100000" by (simp add: full_blocks_def set_Size_def)
  have g: "set_Size (knownBlocks_evict first_pick full_blocks) = 99999"
    using known_sets_bounded [where s = full_blocks and pick = first_pick] f
    by (simp add: maxKnownBlocks_def)
  have h: "set_Size (set_Add (knownBlocks_evict first_pick full_blocks) 100000) \<le> 100000"
    using g set_Add_props(1) [of "knownBlocks_evict first_pick full_blocks" 100000] by simp
  show ?thesis
    using e f g h
    by (simp add: NewPeer_def KnownBlockAdd_def KnownTxsAdd_def set_Add_def maxKnownBlocks_def)
qed

end
